theory Spec2Isabelle
  imports Complex_Main "HOL-Library.Option_ord"
begin

section \<open>The system optimizer of the AD-HTC plant model\<close>

text \<open>
  A shallow embedding of \<^verbatim>\<open>SystemOptimizer\<close>
  (\<^verbatim>\<open>backend/app/core/optimization/optimizer.py\<close>). Python floats are
  read as real numbers, Python dictionaries with string keys as maps from
  \<^typ>\<open>string\<close>, lists as lists. The function names are those of the source without the
  leading underscore.
\<close>

subsection \<open>Dictionaries\<close>

type_synonym params = "string \<rightharpoonup> real"
type_synonym performance = "string \<rightharpoonup> real"
type_synonym constraints = "string \<rightharpoonup> real"

text \<open>\<^verbatim>\<open>d.get(k, default)\<close>\<close>

definition dict_get :: "('k \<rightharpoonup> 'v) \<Rightarrow> 'k \<Rightarrow> 'v \<Rightarrow> 'v" where
  "dict_get d k dflt = (case d k of Some v \<Rightarrow> v | None \<Rightarrow> dflt)"

text \<open>
  The objectives dictionary \<^verbatim>\<open>{'maximize': [...], 'minimize': [...], 'weights': {...}}\<close>.
  The source reads each of the three keys with \<^verbatim>\<open>get\<close> and an empty default, so an
  absent key is the empty list or the empty map.
\<close>

record objectives =
  maximize :: "string list"
  minimize :: "string list"
  weights :: "string \<rightharpoonup> real"

subsection \<open>Constants of the optimizer object\<close>

definition reference_power :: real where
  "reference_power = 100000"

definition reference_efficiency :: real where
  "reference_efficiency = 0.35"

definition reference_cost :: real where
  "reference_cost = 1000"

text \<open>
  \<^verbatim>\<open>self.bounds\<close>: an insertion-ordered dictionary, kept as the list of its items.
\<close>

definition bounds :: "(string \<times> real \<times> real) list" where
  "bounds =
     [(''pressure_ratio'', (3, 25)),
      (''max_turbine_temp'', (800, 1600)),
      (''compressor_efficiency'', (0.75, 0.95)),
      (''turbine_efficiency'', (0.80, 0.95)),
      (''ad_retention_time'', (10, 40)),
      (''htc_temperature'', (453, 523)),
      (''htc_residence_time'', (0.5, 4))]"

subsection \<open>The performance model\<close>

text \<open>
  \<^verbatim>\<open>_evaluate_system_performance\<close>. The exponent \<^verbatim>\<open>(gamma - 1) / gamma\<close> with
  \<^verbatim>\<open>gamma = 1.4\<close> is \<open>2/7\<close>. The real power \<^term>\<open>x powr y\<close> is Python's
  \<^verbatim>\<open>x ** y\<close> for a positive base; every pressure ratio the optimizers evaluate is
  positive.
\<close>

definition evaluate_system_performance :: "params \<Rightarrow> performance" where
  "evaluate_system_performance parameters =
    (let pr = dict_get parameters ''pressure_ratio'' 12;
         t3 = dict_get parameters ''max_turbine_temp'' 1400;
         eta_comp = dict_get parameters ''compressor_efficiency'' 0.85;
         eta_turb = dict_get parameters ''turbine_efficiency'' 0.88;
         rt = dict_get parameters ''ad_retention_time'' 20;
         htc_temp = dict_get parameters ''htc_temperature'' 473;
         gamma = (1.4 :: real);
         ideal_eff = 1 - (1 / pr powr ((gamma - 1) / gamma));
         actual_eff = ideal_eff * eta_comp * eta_turb * (1 - 0.1 * (t3 - 1000) / 1000);
         net_power = 100000 * (actual_eff / 0.35);
         biogas_yield = (if rt > 0 then 0.8 * (20 / rt) else 0);
         biogas_energy = 50000 * biogas_yield;
         htc_eff = 0.75 - 0.001 * (htc_temp - 473);
         heat_demand = (if htc_eff > 0 then 20000 / htc_eff else 0);
         waste_heat = biogas_energy * 0.6;
         self_suff = (if heat_demand > 0 then min (waste_heat / heat_demand) 1 else 0);
         specific_cost = 1000 * (1 + 0.1 * (pr - 6) / 6)
     in [''overall_efficiency'' \<mapsto> actual_eff,
         ''net_power_kw'' \<mapsto> net_power,
         ''biogas_energy_kw'' \<mapsto> biogas_energy,
         ''htc_heat_demand_kw'' \<mapsto> heat_demand,
         ''waste_heat_available_kw'' \<mapsto> waste_heat,
         ''self_sufficiency_ratio'' \<mapsto> self_suff,
         ''specific_cost'' \<mapsto> specific_cost])"

subsection \<open>Fitness\<close>

text \<open>
  \<^verbatim>\<open>_evaluate_fitness\<close> adds four components to \<^verbatim>\<open>fitness = 0.0\<close>, one per
  \<^verbatim>\<open>if\<close> block, in the order of the source. Each component is a function of the
  performance record and the objectives.
\<close>

definition efficiency_component :: "performance \<Rightarrow> objectives \<Rightarrow> real" where
  "efficiency_component perf obj =
    (if ''efficiency'' \<in> set (maximize obj)
     then (let weight = dict_get (weights obj) ''efficiency'' 1
           in weight * dict_get perf ''overall_efficiency'' 0)
     else 0)"

definition power_component :: "performance \<Rightarrow> objectives \<Rightarrow> real" where
  "power_component perf obj =
    (if ''power_output'' \<in> set (maximize obj)
     then (let weight = dict_get (weights obj) ''power_output'' 1;
               normalized_power = dict_get perf ''net_power_kw'' 0 / reference_power
           in weight * normalized_power)
     else 0)"

definition cost_component :: "performance \<Rightarrow> objectives \<Rightarrow> real" where
  "cost_component perf obj =
    (if ''specific_cost'' \<in> set (minimize obj)
     then (let weight = dict_get (weights obj) ''specific_cost'' 1;
               normalized_cost = dict_get perf ''specific_cost'' reference_cost / reference_cost
           in weight * (1 - normalized_cost))
     else 0)"

definition self_sufficiency_component :: "performance \<Rightarrow> objectives \<Rightarrow> real" where
  "self_sufficiency_component perf obj =
    (if ''self_sufficiency'' \<in> set (maximize obj)
     then (let weight = dict_get (weights obj) ''self_sufficiency'' 1
           in weight * dict_get perf ''self_sufficiency_ratio'' 0)
     else 0)"

text \<open>The body of \<^verbatim>\<open>_evaluate_fitness\<close> after its first line.\<close>

definition fitness_of :: "performance \<Rightarrow> objectives \<Rightarrow> real" where
  "fitness_of perf obj =
     0 + efficiency_component perf obj + power_component perf obj
       + cost_component perf obj + self_sufficiency_component perf obj"

definition evaluate_fitness :: "params \<Rightarrow> objectives \<Rightarrow> real" where
  "evaluate_fitness parameters obj = fitness_of (evaluate_system_performance parameters) obj"

text \<open>
  The values \<^verbatim>\<open>_evaluate_fitness\<close> passes to \<^verbatim>\<open>performance.get\<close> for a metric
  that the record lacks, collected as a record of their own (used to state how a
  missing metric is read; the source has no such object).
\<close>

definition metric_defaults :: performance where
  "metric_defaults =
     [''overall_efficiency'' \<mapsto> 0,
      ''net_power_kw'' \<mapsto> 0,
      ''specific_cost'' \<mapsto> reference_cost,
      ''self_sufficiency_ratio'' \<mapsto> 0]"

subsection \<open>Constraints\<close>

text \<open>\<^verbatim>\<open>_check_constraints\<close>: three guarded early returns, then \<^verbatim>\<open>True\<close>.\<close>

definition check_constraints :: "performance \<Rightarrow> constraints \<Rightarrow> bool" where
  "check_constraints perf cons =
    (if (case cons ''min_efficiency'' of
           Some t \<Rightarrow> dict_get perf ''overall_efficiency'' 0 < t | None \<Rightarrow> False)
     then False
     else if (case cons ''max_cost'' of
                Some t \<Rightarrow> dict_get perf ''specific_cost'' 0 > t | None \<Rightarrow> False)
     then False
     else if (case cons ''min_self_sufficiency'' of
                Some t \<Rightarrow> dict_get perf ''self_sufficiency_ratio'' 0 < t | None \<Rightarrow> False)
     then False
     else True)"

subsection \<open>Convergence diagnostics\<close>

text \<open>
  The dictionary returned by \<^verbatim>\<open>_calculate_convergence\<close>. The short-history branch
  returns no \<^verbatim>\<open>final_improvement\<close> key, which is \<^term>\<open>None\<close> here.
\<close>

record convergence =
  converged :: bool
  stability :: real
  final_improvement :: "real option"

text \<open>\<^verbatim>\<open>np.var\<close>: the mean of the squared deviations from the mean.\<close>

definition np_mean :: "real list \<Rightarrow> real" where
  "np_mean xs = sum_list xs / real (length xs)"

definition np_var :: "real list \<Rightarrow> real" where
  "np_var xs = np_mean (map (\<lambda>x. (x - np_mean xs)\<^sup>2) xs)"

text \<open>\<^verbatim>\<open>history[-10:]\<close>\<close>

definition last10 :: "'a list \<Rightarrow> 'a list" where
  "last10 xs = drop (length xs - 10) xs"

definition calculate_convergence :: "real list \<Rightarrow> convergence" where
  "calculate_convergence history =
    (if length history < 10
     then \<lparr>converged = False, stability = 0, final_improvement = None\<rparr>
     else (let recent = last10 history;
               variance = np_var recent
           in \<lparr>converged = (variance < 1 / 10 ^ 6),
               stability = 1 / (1 + variance),
               final_improvement =
                 Some (if history ! 0 \<noteq> 0
                       then (last history - history ! 0) / \<bar>history ! 0\<bar>
                       else 0)\<rparr>))"

subsection \<open>The configuration\<close>

text \<open>
  \<^verbatim>\<open>OptimizationMethod\<close> has three members. The dataclass does not check the type of
  its \<^verbatim>\<open>method\<close> field, so the selector that reaches \<^verbatim>\<open>optimize\<close> is any Python
  value: a member of the enumeration, or a foreign value (kept as its text), which
  compares unequal to every member. The field is named \<open>cfg_method\<close> here.
\<close>

datatype OptimizationMethod = GENETIC | GRADIENT | PARETO

datatype method_value = Member OptimizationMethod | Foreign string

record OptimizationConfig =
  objectives :: objectives
  constraints :: "constraints option"
  cfg_method :: method_value
  population_size :: int
  generations :: int
  mutation_rate :: real

subsection \<open>Vectors\<close>

text \<open>
  A numpy array of floats is a list of reals. \<^verbatim>\<open>np.clip(v, lo, hi)\<close> is
  \<^verbatim>\<open>minimum(maximum(v, lo), hi)\<close>; \<^verbatim>\<open>np.linalg.norm\<close> is the Euclidean norm.
\<close>

definition np_clip :: "real \<Rightarrow> real \<Rightarrow> real \<Rightarrow> real" where
  "np_clip v lo hi = min (max v lo) hi"

definition vec_sub :: "real list \<Rightarrow> real list \<Rightarrow> real list" where
  "vec_sub a b = map2 (\<lambda>u v. u - v) a b"

definition np_norm :: "real list \<Rightarrow> real" where
  "np_norm v = sqrt (sum_list (map (\<lambda>d. d\<^sup>2) v))"

text \<open>
  \<^verbatim>\<open>_array_to_params\<close> reads the first seven entries of the array. Its callers pass
  arrays of seven entries only (the initial guess has seven, and every update keeps
  the length).
\<close>

definition array_to_params :: "real list \<Rightarrow> params" where
  "array_to_params x =
     [''pressure_ratio'' \<mapsto> x ! 0,
      ''max_turbine_temp'' \<mapsto> x ! 1,
      ''compressor_efficiency'' \<mapsto> x ! 2,
      ''turbine_efficiency'' \<mapsto> x ! 3,
      ''ad_retention_time'' \<mapsto> x ! 4,
      ''htc_temperature'' \<mapsto> x ! 5,
      ''htc_residence_time'' \<mapsto> x ! 6]"

subsection \<open>The gradient optimizer\<close>

text \<open>
  \<^verbatim>\<open>_numerical_gradient\<close>: for each index, the two probe vectors \<^verbatim>\<open>x_plus\<close> and
  \<^verbatim>\<open>x_minus\<close>, the two fitness values, and the central difference.
\<close>

definition x_plus :: "real list \<Rightarrow> real \<Rightarrow> nat \<Rightarrow> real list" where
  "x_plus x h i = x[i := x ! i + h]"

definition x_minus :: "real list \<Rightarrow> real \<Rightarrow> nat \<Rightarrow> real list" where
  "x_minus x h i = x[i := x ! i - h]"

definition numerical_gradient :: "real list \<Rightarrow> objectives \<Rightarrow> real \<Rightarrow> real list" where
  "numerical_gradient x obj h =
     map (\<lambda>i. let params_plus = array_to_params (x_plus x h i);
                  params_minus = array_to_params (x_minus x h i);
                  fitness_plus = evaluate_fitness params_plus obj;
                  fitness_minus = evaluate_fitness params_minus obj
              in (fitness_plus - fitness_minus) / (2 * h))
         [0..<length x]"

definition h_default :: real where
  "h_default = 1 / 10 ^ 5"

definition learning_rate :: real where
  "learning_rate = 0.1"

definition max_iterations :: nat where
  "max_iterations = 1000"

definition tolerance :: real where
  "tolerance = 1 / 10 ^ 6"

definition x0 :: "real list" where
  "x0 = [12, 1400, 0.85, 0.88, 20, 473, 2]"

text \<open>
  The first half of the loop body: the gradient, the update
  \<^verbatim>\<open>x_new = x + learning_rate * gradient\<close> and the clipping of every entry of
  \<^verbatim>\<open>x_new\<close> to its bounds (the local list \<^verbatim>\<open>bounds\<close> holds the seven pairs of
  \<^verbatim>\<open>self.bounds\<close> in its order).
\<close>

definition apply_bounds :: "real list \<Rightarrow> real list" where
  "apply_bounds x_new = map2 (\<lambda>v (lower, upper). np_clip v lower upper) x_new (map snd bounds)"

definition gradient_update :: "objectives \<Rightarrow> real list \<Rightarrow> real list" where
  "gradient_update obj x =
     (let gradient = numerical_gradient x obj h_default;
          x_new = map2 (\<lambda>xi gi. xi + learning_rate * gi) x gradient
      in apply_bounds x_new)"

text \<open>
  The loop \<^verbatim>\<open>for iteration in range(max_iterations)\<close>, by recursion on the range. The
  state is \<^verbatim>\<open>(x, history, iteration)\<close>; the third component is the loop variable as
  it stands after the loop (the range is not empty, so it is bound when it is read).
\<close>

fun gradient_loop ::
  "objectives \<Rightarrow> nat list \<Rightarrow> real list \<times> real list \<times> nat \<Rightarrow> real list \<times> real list \<times> nat" where
  "gradient_loop obj [] st = st"
| "gradient_loop obj (iteration # rest) (x, history, previous) =
     (let x_new = gradient_update obj x
      in if np_norm (vec_sub x_new x) < tolerance
         then (x, history, iteration)
         else gradient_loop obj rest
                (x_new, history @ [evaluate_fitness (array_to_params x_new) obj], iteration))"

definition gradient_run :: "objectives \<Rightarrow> real list \<times> real list \<times> nat" where
  "gradient_run obj = gradient_loop obj [0..<max_iterations] (x0, [], 0)"

text \<open>The result dictionaries of the genetic and of the gradient optimizer.\<close>

record opt_result =
  optimized_parameters :: params
  fitness_score :: real
  performance_metrics :: performance
  optimization_method :: string
  fitness_history :: "real list"
  convergence :: convergence

record gradient_result = opt_result +
  iterations :: nat

definition gradient_optimization :: "OptimizationConfig \<Rightarrow> gradient_result" where
  "gradient_optimization config =
     (case gradient_run (objectives config) of (x, history, iteration) \<Rightarrow>
        (let final_params = array_to_params x;
             perf = evaluate_system_performance final_params
         in \<lparr>optimized_parameters = final_params,
             fitness_score = (if history \<noteq> [] then last history else 0),
             performance_metrics = perf,
             optimization_method = ''gradient_descent'',
             fitness_history = history,
             convergence = calculate_convergence history,
             iterations = iteration + 1\<rparr>))"

text \<open>
  The sequence of vectors the update produces from the initial guess: the loop holds
  the \<open>k\<close>-th of them in \<^verbatim>\<open>x\<close> after \<open>k\<close> iterations that did not break.
\<close>

fun gradient_iterate :: "objectives \<Rightarrow> nat \<Rightarrow> real list" where
  "gradient_iterate obj 0 = x0"
| "gradient_iterate obj (Suc k) = gradient_update obj (gradient_iterate obj k)"

subsection \<open>The Pareto optimizer\<close>

text \<open>
  \<^verbatim>\<open>np.linspace(start, stop, num)\<close> for \<open>num > 1\<close>: \<open>num\<close> points with the step
  \<open>(stop - start) / (num - 1)\<close>.
\<close>

definition np_linspace :: "real \<Rightarrow> real \<Rightarrow> nat \<Rightarrow> real list" where
  "np_linspace start stop num =
     map (\<lambda>i. start + real i * ((stop - start) / real (num - 1))) [0..<num]"

definition n_samples :: nat where
  "n_samples = 50"

definition pressure_ratios :: "real list" where
  "pressure_ratios = np_linspace 3 25 n_samples"

definition turbine_temps :: "real list" where
  "turbine_temps = np_linspace 800 1600 n_samples"

text \<open>An entry of \<^verbatim>\<open>solutions\<close>; the key \<^verbatim>\<open>power\<close> is the field \<open>power_kw\<close>.\<close>

record solution =
  parameters :: params
  performance :: performance
  efficiency :: real
  power_kw :: real
  cost :: real

definition grid_params :: "real \<Rightarrow> real \<Rightarrow> params" where
  "grid_params pr tt =
     [''pressure_ratio'' \<mapsto> pr,
      ''max_turbine_temp'' \<mapsto> tt,
      ''compressor_efficiency'' \<mapsto> 0.85,
      ''turbine_efficiency'' \<mapsto> 0.90,
      ''ad_retention_time'' \<mapsto> 20,
      ''htc_temperature'' \<mapsto> 473,
      ''htc_residence_time'' \<mapsto> 2]"

text \<open>
  The truth value of \<^verbatim>\<open>config.constraints\<close>: \<^verbatim>\<open>None\<close> and the empty dictionary are
  false.
\<close>

definition truthy :: "constraints option \<Rightarrow> bool" where
  "truthy c = (case c of None \<Rightarrow> False | Some m \<Rightarrow> m \<noteq> Map.empty)"

text \<open>The dictionary appended to \<^verbatim>\<open>solutions\<close> for a grid point that is kept.\<close>

definition make_solution :: "params \<Rightarrow> performance \<Rightarrow> solution" where
  "make_solution params perf =
     \<lparr>parameters = params,
      performance = perf,
      efficiency = dict_get perf ''overall_efficiency'' 0,
      power_kw = dict_get perf ''net_power_kw'' 0,
      cost = dict_get perf ''specific_cost'' 1000\<rparr>"

text \<open>
  The body of the two nested sampling loops: no entry (\<^verbatim>\<open>continue\<close>) or one entry of
  \<^verbatim>\<open>solutions\<close>. The constraint check runs only when \<^verbatim>\<open>config.constraints\<close> is true,
  hence a dictionary.
\<close>

definition sample :: "constraints option \<Rightarrow> real \<Rightarrow> real \<Rightarrow> solution list" where
  "sample cons pr tt =
     (let params = grid_params pr tt;
          perf = evaluate_system_performance params
      in if truthy cons \<and> \<not> check_constraints perf (case cons of Some m \<Rightarrow> m | None \<Rightarrow> Map.empty)
         then []
         else [make_solution params perf])"

text \<open>The entry of \<^verbatim>\<open>solutions\<close> for a grid point.\<close>

definition grid_solution :: "real \<Rightarrow> real \<Rightarrow> solution" where
  "grid_solution pr tt = make_solution (grid_params pr tt) (evaluate_system_performance (grid_params pr tt))"

definition sample_solutions :: "constraints option \<Rightarrow> solution list" where
  "sample_solutions cons =
     concat (map (\<lambda>pr. concat (map (\<lambda>tt. sample cons pr tt) turbine_temps)) pressure_ratios)"

text \<open>The condition of the inner \<^verbatim>\<open>if\<close>: \<^verbatim>\<open>other\<close> dominates \<^verbatim>\<open>sol\<close>.\<close>

definition dominates :: "solution \<Rightarrow> solution \<Rightarrow> bool" where
  "dominates other sol \<longleftrightarrow>
     efficiency other \<ge> efficiency sol \<and>
     power_kw other \<ge> power_kw sol \<and>
     cost other \<le> cost sol \<and>
     (efficiency other > efficiency sol \<or>
      power_kw other > power_kw sol \<or>
      cost other < cost sol)"

text \<open>
  The filtering loops: \<^verbatim>\<open>is_dominated\<close> is set by the first \<^verbatim>\<open>other\<close> that dominates.
\<close>

definition find_pareto_frontier :: "solution list \<Rightarrow> solution list" where
  "find_pareto_frontier solutions =
     filter (\<lambda>sol. \<not> list_ex (\<lambda>other. dominates other sol) solutions) solutions"

text \<open>
  \<^verbatim>\<open>list.sort(key=..., reverse=True)\<close> is stable: elements with equal keys keep their
  order. It is the stable ascending sort of the reversed list, reversed.
\<close>

definition sort_reverse :: "('a \<Rightarrow> real) \<Rightarrow> 'a list \<Rightarrow> 'a list" where
  "sort_reverse key xs = rev (sort_key key (rev xs))"

text \<open>
  The second copy of the optimizer (\<^verbatim>\<open>backend/optimization/optimizer.py\<close>) filters
  with efficiency and cost only; its solutions have no \<^verbatim>\<open>power\<close> key, and the field
  \<open>power_kw\<close> plays no part in its filter.
\<close>

definition dominates2 :: "solution \<Rightarrow> solution \<Rightarrow> bool" where
  "dominates2 other sol \<longleftrightarrow>
     efficiency other \<ge> efficiency sol \<and>
     cost other \<le> cost sol \<and>
     (efficiency other > efficiency sol \<or> cost other < cost sol)"

definition find_pareto_frontier2 :: "solution list \<Rightarrow> solution list" where
  "find_pareto_frontier2 solutions =
     sort_reverse efficiency
       (filter (\<lambda>sol. \<not> list_ex (\<lambda>other. dominates2 other sol) solutions) solutions)"

record pareto_result =
  pareto_frontier :: "solution list"
  all_solutions :: "solution list"
  pareto_method :: string
  num_pareto_solutions :: nat

definition pareto_optimization :: "OptimizationConfig \<Rightarrow> pareto_result" where
  "pareto_optimization config =
     (let solutions = sample_solutions (constraints config);
          frontier = sort_reverse efficiency (find_pareto_frontier solutions)
      in \<lparr>pareto_frontier = frontier,
          all_solutions = solutions,
          pareto_method = ''pareto'',
          num_pareto_solutions = length frontier\<rparr>)"

subsection \<open>Errors and the random number generator\<close>

text \<open>
  The exceptions the optimizer can raise. \<^verbatim>\<open>ValueError\<close> carries its message.
\<close>

datatype error = ValueError string | IndexError | KeyError | AttributeError

text \<open>
  The genetic optimizer draws from numpy's global generator. Its state is a value of
  an arbitrary type \<open>'s\<close>, passed through every draw; the record holds the five draws
  the source makes: \<^verbatim>\<open>np.random.uniform(low, high)\<close>,
  \<^verbatim>\<open>np.random.choice(a, size)\<close>, \<^verbatim>\<open>np.random.random()\<close>,
  \<^verbatim>\<open>np.random.randint(low, high)\<close> and \<^verbatim>\<open>np.random.normal(loc, scale)\<close>. A
  computation that draws returns its result, or the exception it raised, and the state
  of the generator.
\<close>

record 's rng =
  np_uniform :: "real \<Rightarrow> real \<Rightarrow> 's \<Rightarrow> real \<times> 's"
  np_choice :: "nat \<Rightarrow> nat \<Rightarrow> 's \<Rightarrow> nat list \<times> 's"
  np_random :: "'s \<Rightarrow> real \<times> 's"
  np_randint :: "int \<Rightarrow> int \<Rightarrow> 's \<Rightarrow> int \<times> 's"
  np_normal :: "real \<Rightarrow> real \<Rightarrow> 's \<Rightarrow> real \<times> 's"

text \<open>
  What numpy promises of two of the draws: a uniform sample lies between its limits,
  and \<^verbatim>\<open>choice(a, size)\<close> gives \<^verbatim>\<open>size\<close> indices below \<^verbatim>\<open>a\<close>.
\<close>

definition uniform_ok :: "'s rng \<Rightarrow> bool" where
  "uniform_ok R \<longleftrightarrow>
     (\<forall>lo hi s. lo \<le> hi \<longrightarrow> lo \<le> fst (np_uniform R lo hi s) \<and> fst (np_uniform R lo hi s) \<le> hi)"

definition choice_ok :: "'s rng \<Rightarrow> bool" where
  "choice_ok R \<longleftrightarrow>
     (\<forall>a k s. 0 < a \<longrightarrow>
        length (fst (np_choice R a k s)) = k \<and> (\<forall>i \<in> set (fst (np_choice R a k s)). i < a))"

text \<open>
  A generator for worked examples: the state counts the draws; a uniform sample is the
  upper limit, every chosen index is \<open>0\<close>, \<^verbatim>\<open>random()\<close> is \<open>0\<close>, \<^verbatim>\<open>randint\<close> is its
  lower limit and a normal sample lies one standard deviation below the mean.
\<close>

definition example_rng :: "nat rng" where
  "example_rng =
     \<lparr>np_uniform = (\<lambda>lo hi s. (hi, Suc s)),
      np_choice = (\<lambda>a k s. (replicate k 0, Suc s)),
      np_random = (\<lambda>s. (0, Suc s)),
      np_randint = (\<lambda>lo hi s. (lo, Suc s)),
      np_normal = (\<lambda>loc scale s. (loc - scale, Suc s))\<rparr>"

subsection \<open>Lists and dictionaries that raise\<close>

text \<open>\<^verbatim>\<open>xs[i]\<close> for an index that is not negative, and \<^verbatim>\<open>[xs[i] for i in idx]\<close>.\<close>

definition list_get :: "'a list \<Rightarrow> nat \<Rightarrow> error + 'a" where
  "list_get xs i = (if i < length xs then Inr (xs ! i) else Inl IndexError)"

fun list_gets :: "'a list \<Rightarrow> nat list \<Rightarrow> error + 'a list" where
  "list_gets xs [] = Inr []"
| "list_gets xs (i # idx) =
     (case list_get xs i of
        Inl e \<Rightarrow> Inl e
      | Inr v \<Rightarrow> (case list_gets xs idx of Inl e \<Rightarrow> Inl e | Inr vs \<Rightarrow> Inr (v # vs)))"

text \<open>
  \<^verbatim>\<open>np.argmax\<close>: the first index of the largest entry; an empty sequence raises.
\<close>

fun argmax_from :: "real list \<Rightarrow> nat \<Rightarrow> nat \<Rightarrow> real \<Rightarrow> nat" where
  "argmax_from [] i best_i best_v = best_i"
| "argmax_from (v # vs) i best_i best_v =
     (if v > best_v then argmax_from vs (Suc i) i v else argmax_from vs (Suc i) best_i best_v)"

definition np_argmax :: "real list \<Rightarrow> error + nat" where
  "np_argmax vs =
     (case vs of
        [] \<Rightarrow> Inl (ValueError ''attempt to get argmax of an empty sequence'')
      | v # rest \<Rightarrow> Inr (argmax_from rest 1 0 v))"

text \<open>\<^verbatim>\<open>self.bounds[var]\<close>\<close>

definition bounds_of :: "string \<Rightarrow> error + real \<times> real" where
  "bounds_of var = (case map_of bounds var of Some b \<Rightarrow> Inr b | None \<Rightarrow> Inl KeyError)"

subsection \<open>The genetic optimizer\<close>

text \<open>\<^verbatim>\<open>variables = list(self.bounds.keys())\<close>\<close>

definition variables :: "string list" where
  "variables = map fst bounds"

text \<open>
  The initial population: for each of \<^verbatim>\<open>population_size\<close> individuals, one uniform
  draw per variable, in the order of \<^verbatim>\<open>variables\<close>.
\<close>

fun init_individual ::
  "'s rng \<Rightarrow> string list \<Rightarrow> params \<Rightarrow> 's \<Rightarrow> (error + params) \<times> 's" where
  "init_individual R [] individual s = (Inr individual, s)"
| "init_individual R (var # vars) individual s =
     (case bounds_of var of
        Inl e \<Rightarrow> (Inl e, s)
      | Inr (lo, hi) \<Rightarrow>
          (case np_uniform R lo hi s of
             (v, s') \<Rightarrow> init_individual R vars (individual(var \<mapsto> v)) s'))"

fun init_population ::
  "'s rng \<Rightarrow> nat \<Rightarrow> params list \<Rightarrow> 's \<Rightarrow> (error + params list) \<times> 's" where
  "init_population R 0 population s = (Inr population, s)"
| "init_population R (Suc n) population s =
     (case init_individual R variables Map.empty s of
        (Inl e, s') \<Rightarrow> (Inl e, s')
      | (Inr individual, s') \<Rightarrow> init_population R n (population @ [individual]) s')"

text \<open>
  The pair \<^verbatim>\<open>(best_fitness, best_individual)\<close>. Both are assigned together; before
  the first assignment they are \<^verbatim>\<open>-np.inf\<close> and \<^verbatim>\<open>None\<close>, which is \<^term>\<open>None\<close> here.
  \<^verbatim>\<open>fitness > best_fitness\<close> holds for every fitness when \<^verbatim>\<open>best_fitness\<close> is
  \<^verbatim>\<open>-np.inf\<close>.
\<close>

type_synonym best = "(real \<times> params) option"

definition improves :: "real \<Rightarrow> best \<Rightarrow> bool" where
  "improves fitness b = (case b of None \<Rightarrow> True | Some (best_fitness, _) \<Rightarrow> fitness > best_fitness)"

text \<open>The evaluation loop over the population.\<close>

fun evaluate_population ::
  "objectives \<Rightarrow> params list \<Rightarrow> real list \<times> best \<Rightarrow> real list \<times> best" where
  "evaluate_population obj [] (fitness_scores, b) = (fitness_scores, b)"
| "evaluate_population obj (individual # rest) (fitness_scores, b) =
     (let fitness = evaluate_fitness individual obj
      in evaluate_population obj rest
           (fitness_scores @ [fitness],
            if improves fitness b then Some (fitness, individual) else b))"

text \<open>
  One tournament: three indices, their fitness values, the index of the winner, and a
  copy of the winner. \<^verbatim>\<open>choice\<close> raises for an empty population.
\<close>

definition tournament ::
  "'s rng \<Rightarrow> params list \<Rightarrow> real list \<Rightarrow> 's \<Rightarrow> (error + params) \<times> 's" where
  "tournament R population fitness_scores s =
     (if length population = 0
      then (Inl (ValueError ''a must be greater than 0 unless no samples are taken''), s)
      else (case np_choice R (length population) 3 s of
              (tournament_idx, s') \<Rightarrow>
                (case list_gets fitness_scores tournament_idx of
                   Inl e \<Rightarrow> (Inl e, s')
                 | Inr tournament_fitness \<Rightarrow>
                     (case np_argmax tournament_fitness of
                        Inl e \<Rightarrow> (Inl e, s')
                      | Inr k \<Rightarrow>
                          (case list_get tournament_idx k of
                             Inl e \<Rightarrow> (Inl e, s')
                           | Inr winner_idx \<Rightarrow> (list_get population winner_idx, s'))))))"

fun selection ::
  "'s rng \<Rightarrow> params list \<Rightarrow> real list \<Rightarrow> nat \<Rightarrow> params list \<Rightarrow> 's
     \<Rightarrow> (error + params list) \<times> 's" where
  "selection R population fitness_scores 0 new_population s = (Inr new_population, s)"
| "selection R population fitness_scores (Suc n) new_population s =
     (case tournament R population fitness_scores s of
        (Inl e, s') \<Rightarrow> (Inl e, s')
      | (Inr winner, s') \<Rightarrow>
          selection R population fitness_scores n (new_population @ [winner]) s')"

text \<open>
  The two children of a pair: the loop over \<^verbatim>\<open>enumerate(variables)\<close>. Reading a
  variable that a parent lacks raises.
\<close>

fun make_children ::
  "int \<Rightarrow> (nat \<times> string) list \<Rightarrow> params \<Rightarrow> params \<Rightarrow> params \<times> params
     \<Rightarrow> error + params \<times> params" where
  "make_children crossover_point [] parent1 parent2 (child1, child2) = Inr (child1, child2)"
| "make_children crossover_point ((j, var) # rest) parent1 parent2 (child1, child2) =
     (case (parent1 var, parent2 var) of
        (Some v1, Some v2) \<Rightarrow>
          (if int j < crossover_point
           then make_children crossover_point rest parent1 parent2
                  (child1(var \<mapsto> v1), child2(var \<mapsto> v2))
           else make_children crossover_point rest parent1 parent2
                  (child1(var \<mapsto> v2), child2(var \<mapsto> v1)))
      | _ \<Rightarrow> Inl KeyError)"

text \<open>
  The crossover loop over the indices \<^verbatim>\<open>range(0, population_size - 1, 2)\<close>.
\<close>

fun crossover ::
  "'s rng \<Rightarrow> nat list \<Rightarrow> params list \<Rightarrow> 's \<Rightarrow> (error + params list) \<times> 's" where
  "crossover R [] new_population s = (Inr new_population, s)"
| "crossover R (i # rest) new_population s =
     (case np_random R s of
        (r, s1) \<Rightarrow>
          (if r < 0.8
           then (case np_randint R 1 (int (length variables)) s1 of
                   (crossover_point, s2) \<Rightarrow>
                     (case list_get new_population i of
                        Inl e \<Rightarrow> (Inl e, s2)
                      | Inr parent1 \<Rightarrow>
                          (case list_get new_population (i + 1) of
                             Inl e \<Rightarrow> (Inl e, s2)
                           | Inr parent2 \<Rightarrow>
                               (case make_children crossover_point
                                       (zip [0..<length variables] variables)
                                       parent1 parent2 (Map.empty, Map.empty) of
                                  Inl e \<Rightarrow> (Inl e, s2)
                                | Inr (child1, child2) \<Rightarrow>
                                    crossover R rest
                                      (new_population[i := child1, i + 1 := child2]) s2))))
           else crossover R rest new_population s1))"

definition crossover_indices :: "int \<Rightarrow> nat list" where
  "crossover_indices n = filter even [0..<nat (n - 1)]"

text \<open>The mutation of one individual, variable by variable, and of the population.\<close>

fun mutate_individual ::
  "'s rng \<Rightarrow> real \<Rightarrow> string list \<Rightarrow> params \<Rightarrow> 's \<Rightarrow> (error + params) \<times> 's" where
  "mutate_individual R rate [] individual s = (Inr individual, s)"
| "mutate_individual R rate (var # vars) individual s =
     (case np_random R s of
        (r, s1) \<Rightarrow>
          (if r < rate
           then (case bounds_of var of
                   Inl e \<Rightarrow> (Inl e, s1)
                 | Inr (lo, hi) \<Rightarrow>
                     (case np_normal R 0 ((hi - lo) * 0.1) s1 of
                        (mutation, s2) \<Rightarrow>
                          (case individual var of
                             None \<Rightarrow> (Inl KeyError, s2)
                           | Some v \<Rightarrow>
                               mutate_individual R rate vars
                                 (individual(var \<mapsto> np_clip (v + mutation) lo hi)) s2)))
           else mutate_individual R rate vars individual s1))"

fun mutation ::
  "'s rng \<Rightarrow> real \<Rightarrow> params list \<Rightarrow> 's \<Rightarrow> (error + params list) \<times> 's" where
  "mutation R rate [] s = (Inr [], s)"
| "mutation R rate (individual # rest) s =
     (case mutate_individual R rate variables individual s of
        (Inl e, s') \<Rightarrow> (Inl e, s')
      | (Inr individual', s') \<Rightarrow>
          (case mutation R rate rest s' of
             (Inl e, s'') \<Rightarrow> (Inl e, s'')
           | (Inr rest', s'') \<Rightarrow> (Inr (individual' # rest'), s'')))"

text \<open>
  One generation: evaluation, the entry of the history, selection, crossover and
  mutation. The state of the loop is \<^verbatim>\<open>(population, (best_fitness, best_individual),
  fitness_history)\<close>; an entry of the history is \<^term>\<open>None\<close> when it is \<^verbatim>\<open>-np.inf\<close>
  and is appended as \<^verbatim>\<open>best_fitness\<close> stands after the evaluation.
\<close>

type_synonym ga_state = "params list \<times> best \<times> real option list"

definition generation ::
  "'s rng \<Rightarrow> OptimizationConfig \<Rightarrow> ga_state \<Rightarrow> 's \<Rightarrow> (error + ga_state) \<times> 's" where
  "generation R config st s =
     (case st of (population, b, history) \<Rightarrow>
        (case evaluate_population (objectives config) population ([], b) of
           (fitness_scores, b') \<Rightarrow>
             (case selection R population fitness_scores (nat (population_size config)) [] s of
                (Inl e, s1) \<Rightarrow> (Inl e, s1)
              | (Inr selected, s1) \<Rightarrow>
                  (case crossover R (crossover_indices (population_size config)) selected s1 of
                     (Inl e, s2) \<Rightarrow> (Inl e, s2)
                   | (Inr crossed, s2) \<Rightarrow>
                       (case mutation R (mutation_rate config) crossed s2 of
                          (Inl e, s3) \<Rightarrow> (Inl e, s3)
                        | (Inr new_population, s3) \<Rightarrow>
                            (Inr (new_population, b', history @ [map_option fst b']),
                             s3))))))"

fun evolve ::
  "'s rng \<Rightarrow> OptimizationConfig \<Rightarrow> nat \<Rightarrow> ga_state \<Rightarrow> 's \<Rightarrow> (error + ga_state) \<times> 's" where
  "evolve R config 0 st s = (Inr st, s)"
| "evolve R config (Suc n) st s =
     (case generation R config st s of
        (Inl e, s') \<Rightarrow> (Inl e, s')
      | (Inr st', s') \<Rightarrow> evolve R config n st' s')"

record genetic_result = opt_result +
  res_generations :: int
  res_population_size :: int

text \<open>
  \<^verbatim>\<open>_genetic_optimization\<close>. With no individual ever evaluated, \<^verbatim>\<open>best_individual\<close> is
  \<^verbatim>\<open>None\<close> and the final evaluation raises \<^verbatim>\<open>AttributeError\<close>. Otherwise every entry
  of the history is a number (lemma \<open>evolve_history_finite\<close> below), so the last
  \<^verbatim>\<open>ValueError\<close> branch is never taken.
\<close>

definition genetic_optimization ::
  "'s rng \<Rightarrow> OptimizationConfig \<Rightarrow> 's \<Rightarrow> (error + genetic_result) \<times> 's" where
  "genetic_optimization R config s =
     (case init_population R (nat (population_size config)) [] s of
        (Inl e, s1) \<Rightarrow> (Inl e, s1)
      | (Inr population, s1) \<Rightarrow>
          (case evolve R config (nat (generations config)) (population, None, []) s1 of
             (Inl e, s2) \<Rightarrow> (Inl e, s2)
           | (Inr (final_population, b, history), s2) \<Rightarrow>
               (case b of
                  None \<Rightarrow> (Inl AttributeError, s2)
                | Some (best_fitness, best_individual) \<Rightarrow>
                    (case those history of
                       None \<Rightarrow> (Inl (ValueError ''history''), s2)
                     | Some finite_history \<Rightarrow>
                         (Inr \<lparr>optimized_parameters = best_individual,
                               fitness_score = best_fitness,
                               performance_metrics = evaluate_system_performance best_individual,
                               optimization_method = ''genetic_algorithm'',
                               fitness_history = finite_history,
                               convergence = calculate_convergence finite_history,
                               res_generations = generations config,
                               res_population_size = population_size config\<rparr>,
                          s2)))))"

subsection \<open>The facade\<close>

datatype result =
  Genetic genetic_result
| Gradient gradient_result
| Pareto pareto_result

text \<open>
  \<^verbatim>\<open>str(config.method)\<close>, as the message of the error shows it.
\<close>

fun method_text :: "method_value \<Rightarrow> string" where
  "method_text (Member GENETIC) = ''OptimizationMethod.GENETIC''"
| "method_text (Member GRADIENT) = ''OptimizationMethod.GRADIENT''"
| "method_text (Member PARETO) = ''OptimizationMethod.PARETO''"
| "method_text (Foreign v) = v"

text \<open>
  \<^verbatim>\<open>optimize\<close>: the chain of comparisons with the three members, and the
  \<^verbatim>\<open>ValueError\<close> of the \<^verbatim>\<open>else\<close> branch. Only the genetic optimizer draws from the
  generator.
\<close>

definition optimize ::
  "'s rng \<Rightarrow> OptimizationConfig \<Rightarrow> 's \<Rightarrow> (error + result) \<times> 's" where
  "optimize R config s =
     (if cfg_method config = Member GENETIC
      then (case genetic_optimization R config s of
              (Inl e, s') \<Rightarrow> (Inl e, s')
            | (Inr r, s') \<Rightarrow> (Inr (Genetic r), s'))
      else if cfg_method config = Member GRADIENT
      then (Inr (Gradient (gradient_optimization config)), s)
      else if cfg_method config = Member PARETO
      then (Inr (Pareto (pareto_optimization config)), s)
      else (Inl (ValueError (''Unknown optimization method: '' @ method_text (cfg_method config))),
            s))"

subsection \<open>Ranges of parameter values\<close>

text \<open>
  A parameter dictionary is within the bounds when it has a value for every variable of
  \<^verbatim>\<open>self.bounds\<close> and the value lies in the variable's inclusive range; a vector is
  within the bounds, widened by \<open>d\<close> on both sides, when its entries are, in the order
  of \<^verbatim>\<open>self.bounds\<close>.
\<close>

definition in_bounds :: "params \<Rightarrow> bool" where
  "in_bounds p \<longleftrightarrow>
     list_all (\<lambda>(var, lo, hi). case p var of Some v \<Rightarrow> lo \<le> v \<and> v \<le> hi | None \<Rightarrow> False) bounds"

definition vec_in_bounds :: "real \<Rightarrow> real list \<Rightarrow> bool" where
  "vec_in_bounds d x \<longleftrightarrow>
     length x = length bounds \<and>
     list_all2 (\<lambda>v (var, lo, hi). lo - d \<le> v \<and> v \<le> hi + d) x bounds"

text \<open>
  The invariant of the populations, for a property \<open>P lo hi v\<close> of a value and the
  limits of its variable: every variable of the set has a value with the property.
\<close>

definition sat :: "(real \<Rightarrow> real \<Rightarrow> real \<Rightarrow> bool) \<Rightarrow> string set \<Rightarrow> params \<Rightarrow> bool" where
  "sat P S p \<longleftrightarrow>
     (\<forall>var \<in> S. \<exists>lo hi v. bounds_of var = Inr (lo, hi) \<and> p var = Some v \<and> P lo hi v)"

subsection \<open>Worked examples\<close>

text \<open>
  Two objectives that only minimize the specific cost, with the default weight and
  with the weight \<open>6000\<close>; a configuration of the genetic optimizer with two
  individuals and two generations; and the three individuals its run on
  \<^term>\<open>example_rng\<close> meets: the upper limits, and the upper limits lowered by one and by
  two tenths of each range.
\<close>

definition cost_objectives :: objectives where
  "cost_objectives = \<lparr>maximize = [], minimize = [''specific_cost''], weights = Map.empty\<rparr>"

definition steep_objectives :: objectives where
  "steep_objectives =
     \<lparr>maximize = [], minimize = [''specific_cost''], weights = [''specific_cost'' \<mapsto> 6000]\<rparr>"

definition example_config :: OptimizationConfig where
  "example_config = \<lparr>objectives = cost_objectives, constraints = None,
      cfg_method = Member GENETIC, population_size = 2, generations = 2, mutation_rate = 0.1\<rparr>"

definition upper :: params where
  "upper = [''pressure_ratio'' \<mapsto> 25, ''max_turbine_temp'' \<mapsto> 1600,
      ''compressor_efficiency'' \<mapsto> 0.95, ''turbine_efficiency'' \<mapsto> 0.95,
      ''ad_retention_time'' \<mapsto> 40, ''htc_temperature'' \<mapsto> 523,
      ''htc_residence_time'' \<mapsto> 4]"

definition lowered :: params where
  "lowered = [''pressure_ratio'' \<mapsto> 22.8, ''max_turbine_temp'' \<mapsto> 1520,
      ''compressor_efficiency'' \<mapsto> 0.93, ''turbine_efficiency'' \<mapsto> 0.935,
      ''ad_retention_time'' \<mapsto> 37, ''htc_temperature'' \<mapsto> 516,
      ''htc_residence_time'' \<mapsto> 3.65]"

definition lowered2 :: params where
  "lowered2 = [''pressure_ratio'' \<mapsto> 20.6, ''max_turbine_temp'' \<mapsto> 1440,
      ''compressor_efficiency'' \<mapsto> 0.91, ''turbine_efficiency'' \<mapsto> 0.92,
      ''ad_retention_time'' \<mapsto> 34, ''htc_temperature'' \<mapsto> 509,
      ''htc_residence_time'' \<mapsto> 3.3]"

section \<open>Properties\<close>

subsection \<open>Convergence diagnostics\<close>





subsection \<open>Fitness of a record with missing metrics\<close>

lemma dict_get_map_add:
  "dict_get (d ++ perf) k dflt = (case perf k of Some v \<Rightarrow> v | None \<Rightarrow> dict_get d k dflt)"
  by (simp add: dict_get_def map_add_def split: option.splits)

lemma dict_get_case_default:
  "(case perf k of Some v \<Rightarrow> v | None \<Rightarrow> dflt) = dict_get perf k dflt"
  by (simp add: dict_get_def)

text \<open>
  C6, as the code has it. A metric that the performance record lacks is read as \<open>0\<close>
  when it is the efficiency, the net power or the self-sufficiency ratio, and as the
  reference cost when it is the specific cost: the fitness of a record is the fitness
  of the record completed with these defaults. For a record lacking
  \<^verbatim>\<open>specific_cost\<close>, with \<^verbatim>\<open>specific_cost\<close> in the minimize list, the cost component
  is \<open>weight * (1 - reference_cost / reference_cost) = 0\<close>.
\<close>

theorem fitness_missing_metrics:
  "fitness_of perf obj = fitness_of (metric_defaults ++ perf) obj
   \<and> (perf ''overall_efficiency'' = None \<and> ''efficiency'' \<in> set (maximize obj) \<longrightarrow>
        efficiency_component perf obj = dict_get (weights obj) ''efficiency'' 1 * 0)
   \<and> (perf ''net_power_kw'' = None \<and> ''power_output'' \<in> set (maximize obj) \<longrightarrow>
        power_component perf obj =
          dict_get (weights obj) ''power_output'' 1 * (0 / reference_power))
   \<and> (perf ''self_sufficiency_ratio'' = None \<and> ''self_sufficiency'' \<in> set (maximize obj) \<longrightarrow>
        self_sufficiency_component perf obj = dict_get (weights obj) ''self_sufficiency'' 1 * 0)
   \<and> (perf ''specific_cost'' = None \<and> ''specific_cost'' \<in> set (minimize obj) \<longrightarrow>
        cost_component perf obj =
          dict_get (weights obj) ''specific_cost'' 1 * (1 - reference_cost / reference_cost)
        \<and> cost_component perf obj = 0)"
proof -
  have e: "efficiency_component (metric_defaults ++ perf) obj = efficiency_component perf obj"
    by (simp add: efficiency_component_def dict_get_map_add dict_get_case_default)
       (simp add: dict_get_def metric_defaults_def split: option.splits)
  have p: "power_component (metric_defaults ++ perf) obj = power_component perf obj"
    by (simp add: power_component_def dict_get_map_add dict_get_case_default)
       (simp add: dict_get_def metric_defaults_def split: option.splits)
  have c: "cost_component (metric_defaults ++ perf) obj = cost_component perf obj"
    by (simp add: cost_component_def dict_get_map_add dict_get_case_default)
       (simp add: dict_get_def metric_defaults_def split: option.splits)
  have s: "self_sufficiency_component (metric_defaults ++ perf) obj
             = self_sufficiency_component perf obj"
    by (simp add: self_sufficiency_component_def dict_get_map_add dict_get_case_default)
       (simp add: dict_get_def metric_defaults_def split: option.splits)
  have "fitness_of perf obj = fitness_of (metric_defaults ++ perf) obj"
    by (simp add: fitness_of_def e p c s)
  moreover have "perf ''overall_efficiency'' = None \<Longrightarrow> ''efficiency'' \<in> set (maximize obj) \<Longrightarrow>
      efficiency_component perf obj = dict_get (weights obj) ''efficiency'' 1 * 0"
    by (simp add: efficiency_component_def dict_get_def)
  moreover have "perf ''net_power_kw'' = None \<Longrightarrow> ''power_output'' \<in> set (maximize obj) \<Longrightarrow>
      power_component perf obj = dict_get (weights obj) ''power_output'' 1 * (0 / reference_power)"
    by (simp add: power_component_def dict_get_def)
  moreover have "perf ''self_sufficiency_ratio'' = None \<Longrightarrow>
      ''self_sufficiency'' \<in> set (maximize obj) \<Longrightarrow>
      self_sufficiency_component perf obj = dict_get (weights obj) ''self_sufficiency'' 1 * 0"
    by (simp add: self_sufficiency_component_def dict_get_def)
  moreover have "perf ''specific_cost'' = None \<Longrightarrow> ''specific_cost'' \<in> set (minimize obj) \<Longrightarrow>
      cost_component perf obj =
          dict_get (weights obj) ''specific_cost'' 1 * (1 - reference_cost / reference_cost)
        \<and> cost_component perf obj = 0"
    by (simp add: cost_component_def dict_get_def reference_cost_def)
  ultimately show ?thesis by blast
qed

theorem fitness_missing_metrics_witness:
  "Map.empty ''overall_efficiency'' = (None :: real option)
   \<and> ''efficiency'' \<in> set [''efficiency'', ''power_output'', ''self_sufficiency'']
   \<and> ''power_output'' \<in> set [''efficiency'', ''power_output'', ''self_sufficiency'']
   \<and> ''self_sufficiency'' \<in> set [''efficiency'', ''power_output'', ''self_sufficiency'']
   \<and> ''specific_cost'' \<in> set [''specific_cost'']
   \<and> efficiency_component Map.empty
        \<lparr>maximize = [''efficiency'', ''power_output'', ''self_sufficiency''],
         minimize = [''specific_cost''], weights = [''specific_cost'' \<mapsto> 3]\<rparr> = 0
   \<and> power_component Map.empty
        \<lparr>maximize = [''efficiency'', ''power_output'', ''self_sufficiency''],
         minimize = [''specific_cost''], weights = [''specific_cost'' \<mapsto> 3]\<rparr> = 0
   \<and> self_sufficiency_component Map.empty
        \<lparr>maximize = [''efficiency'', ''power_output'', ''self_sufficiency''],
         minimize = [''specific_cost''], weights = [''specific_cost'' \<mapsto> 3]\<rparr> = 0
   \<and> cost_component Map.empty
        \<lparr>maximize = [''efficiency'', ''power_output'', ''self_sufficiency''],
         minimize = [''specific_cost''], weights = [''specific_cost'' \<mapsto> 3]\<rparr> = 0"
  using fitness_missing_metrics [of Map.empty
      "\<lparr>maximize = [''efficiency'', ''power_output'', ''self_sufficiency''],
        minimize = [''specific_cost''], weights = [''specific_cost'' \<mapsto> 3]\<rparr>"]
  by (simp add: reference_cost_def dict_get_def)

text \<open>
  The claim as the specification words it fails: with no \<^verbatim>\<open>specific_cost\<close> in the
  record and \<^verbatim>\<open>specific_cost\<close> to be minimized with weight \<open>3\<close>, the cost component is
  \<open>0\<close> and not \<open>3 * (1 - 0 / reference_cost) = 3\<close>.
\<close>

theorem missing_cost_counterexample:
  "cost_component Map.empty
      \<lparr>maximize = [], minimize = [''specific_cost''], weights = [''specific_cost'' \<mapsto> 3]\<rparr>
    \<noteq> dict_get [''specific_cost'' \<mapsto> (3 :: real)] ''specific_cost'' 1 * (1 - 0 / reference_cost)"
  by (simp add: cost_component_def dict_get_def reference_cost_def)

subsection \<open>The constraint checker\<close>

text \<open>
  C7. The constraint checker returns true exactly when each threshold that is present
  holds: the efficiency is at least \<^verbatim>\<open>min_efficiency\<close>, the specific cost is at most
  \<^verbatim>\<open>max_cost\<close>, the self-sufficiency ratio is at least \<^verbatim>\<open>min_self_sufficiency\<close>
  (a metric the record lacks is read as \<open>0\<close>, as \<^verbatim>\<open>performance.get(key, 0)\<close> does).
  An absent threshold is satisfied, so the empty constraints mapping gives true.
\<close>

theorem check_constraints_iff:
  "(check_constraints perf cons \<longleftrightarrow>
      (\<forall>t. cons ''min_efficiency'' = Some t \<longrightarrow> dict_get perf ''overall_efficiency'' 0 \<ge> t) \<and>
      (\<forall>t. cons ''max_cost'' = Some t \<longrightarrow> dict_get perf ''specific_cost'' 0 \<le> t) \<and>
      (\<forall>t. cons ''min_self_sufficiency'' = Some t \<longrightarrow>
           dict_get perf ''self_sufficiency_ratio'' 0 \<ge> t))
   \<and> check_constraints perf Map.empty"
  by (auto simp: check_constraints_def split: option.splits)

theorem check_constraints_iff_witness:
  "[''min_efficiency'' \<mapsto> 1, ''max_cost'' \<mapsto> (1000 :: real)] ''min_efficiency'' = Some 1
   \<and> [''min_efficiency'' \<mapsto> 1, ''max_cost'' \<mapsto> (1000 :: real)] ''max_cost'' = Some 1000
   \<and> [''min_efficiency'' \<mapsto> 1, ''max_cost'' \<mapsto> (1000 :: real)] ''min_self_sufficiency'' = None
   \<and> check_constraints [''overall_efficiency'' \<mapsto> 2, ''specific_cost'' \<mapsto> 900]
         [''min_efficiency'' \<mapsto> 1, ''max_cost'' \<mapsto> 1000]
   \<and> \<not> check_constraints [''overall_efficiency'' \<mapsto> 2]
         [''min_efficiency'' \<mapsto> 1, ''min_self_sufficiency'' \<mapsto> 1]
   \<and> \<not> check_constraints [''overall_efficiency'' \<mapsto> 2, ''specific_cost'' \<mapsto> 1100]
         [''min_efficiency'' \<mapsto> 1, ''max_cost'' \<mapsto> 1000]"
  using check_constraints_iff [of "[''overall_efficiency'' \<mapsto> 2, ''specific_cost'' \<mapsto> 900]"
      "[''min_efficiency'' \<mapsto> 1, ''max_cost'' \<mapsto> 1000]"]
    check_constraints_iff [of "[''overall_efficiency'' \<mapsto> 2]"
      "[''min_efficiency'' \<mapsto> 1, ''min_self_sufficiency'' \<mapsto> 1]"]
    check_constraints_iff [of "[''overall_efficiency'' \<mapsto> 2, ''specific_cost'' \<mapsto> 1100]"
      "[''min_efficiency'' \<mapsto> 1, ''max_cost'' \<mapsto> 1000]"]
  by (simp add: dict_get_def)


subsection \<open>Evaluating the fitness and the gradient\<close>

lemma dict_get_empty: "dict_get Map.empty k dflt = dflt"
  by (simp add: dict_get_def)

lemma dict_get_upd: "dict_get (m(k \<mapsto> v)) k' dflt = (if k' = k then v else dict_get m k' dflt)"
  by (simp add: dict_get_def)

lemma perf_specific_cost: "dict_get (evaluate_system_performance p) ''specific_cost'' dflt
          = 1000 * (1 + 0.1 * (dict_get p ''pressure_ratio'' 12 - 6) / 6)"
    by (simp add: evaluate_system_performance_def Let_def dict_get_upd)

lemma cost_algebra:
  "(W :: real) * (1 - 1000 * (1 + 0.1 * (P - 6) / 6) / 1000) = W * (6 - P) / 60"
proof -
  have "1 - 1000 * (1 + 0.1 * (P - 6) / 6) / 1000 = (6 - P) / 60"
    by argo
  then show ?thesis
    by (simp only: times_divide_eq_right)
qed

lemma evaluate_fitness_cost_only:
  "evaluate_fitness p \<lparr>maximize = [], minimize = [''specific_cost''], weights = w\<rparr> =
     dict_get w ''specific_cost'' 1 * (6 - dict_get p ''pressure_ratio'' 12) / 60"
  unfolding evaluate_fitness_def fitness_of_def efficiency_component_def power_component_def
      cost_component_def self_sufficiency_component_def perf_specific_cost reference_cost_def
  using cost_algebra [of "dict_get w ''specific_cost'' 1" "dict_get p ''pressure_ratio'' 12"]
  by (simp only: add_0 add_0_right list.set empty_iff insert_iff simp_thms if_True if_False Let_def objectives.simps)

lemma pressure_ratio_array: "dict_get (array_to_params x) ''pressure_ratio'' dflt = x ! 0"
  by (simp add: array_to_params_def dict_get_upd)

lemma numerical_gradient_cost_only:
  assumes "h \<noteq> 0"
  shows "numerical_gradient [a, b, c, d, e, f, g]
      \<lparr>maximize = [], minimize = [''specific_cost''], weights = w\<rparr> h
    = [- dict_get w ''specific_cost'' 1 / 60, 0, 0, 0, 0, 0, 0]"
proof -
  have len: "[0..<length [a, b, c, d, e, f, g]] = [0, 1, 2, 3, 4, 5, 6]"
    by (simp add: upt_conv_Cons)
  have "(W * (6 - (a + h)) / 60 - W * (6 - (a - h)) / 60) / (2 * h) = - W / 60" for W :: real
    using assms by (simp add: field_simps)
  then show ?thesis
    unfolding numerical_gradient_def len
    by (simp add: evaluate_fitness_cost_only pressure_ratio_array x_plus_def x_minus_def Let_def)
qed

subsection \<open>The gradient optimizer\<close>

lemma gradient_loop_range:
  "gradient_loop obj [k..<n] (x, h, it) = (x', h', it') \<Longrightarrow> k < n \<Longrightarrow> length h = k \<Longrightarrow>
   x = gradient_iterate obj k \<Longrightarrow>
     k \<le> length h' \<and> length h' \<le> n
     \<and> it' = min (length h') (n - 1)
     \<and> x' = gradient_iterate obj (length h')
     \<and> (length h' < n \<longrightarrow> np_norm (vec_sub (gradient_update obj x') x') < tolerance)"
proof (induction "n - k" arbitrary: k x h it)
  case 0
  then show ?case by simp
next
  case (Suc m)
  from Suc.prems(2) have range: "[k..<n] = k # [Suc k..<n]"
    by (simp add: upt_conv_Cons)
  show ?case
  proof (cases "np_norm (vec_sub (gradient_update obj x) x) < tolerance")
    case True
    with Suc.prems range have "x' = x \<and> h' = h \<and> it' = k"
      by auto
    with True Suc.prems show ?thesis by auto
  next
    case False
    let ?x = "gradient_update obj x"
    let ?h = "h @ [evaluate_fitness (array_to_params ?x) obj]"
    from False Suc.prems(1) range
    have run: "gradient_loop obj [Suc k..<n] (?x, ?h, k) = (x', h', it')"
      by (simp add: Let_def)
    show ?thesis
    proof (cases "Suc k < n")
      case True
      have "m = n - Suc k" using Suc.hyps(2) by simp
      moreover have "length ?h = Suc k" using Suc.prems(3) by simp
      moreover have "?x = gradient_iterate obj (Suc k)" using Suc.prems(4) by simp
      ultimately have "Suc k \<le> length h' \<and> length h' \<le> n
         \<and> it' = min (length h') (n - 1)
         \<and> x' = gradient_iterate obj (length h')
         \<and> (length h' < n \<longrightarrow> np_norm (vec_sub (gradient_update obj x') x') < tolerance)"
        using Suc.hyps(1) [of "Suc k" ?x ?h k] run True by blast
      then show ?thesis by auto
    next
      case False
      with Suc.prems(2) have n: "n = Suc k" by simp
      with run have "x' = ?x \<and> h' = ?h \<and> it' = k" by auto
      with n Suc.prems show ?thesis by auto
    qed
  qed
qed

text \<open>
  C4. The gradient optimizer performs at most \<open>max_iterations = 1000\<close> iterations. The
  loop records one fitness value in each iteration that does not break, so it stopped
  early exactly when the history has fewer than \<open>1000\<close> entries; then the Euclidean
  norm of the difference between the last proposed (clipped) iterate
  \<open>gradient_update obj x\<close> and the iterate \<open>x\<close> before it is strictly less than
  \<open>tolerance = 1e-6\<close>.
\<close>

theorem gradient_termination:
  assumes "gradient_run (objectives config) = (x, history, iteration)"
  shows "iterations (gradient_optimization config) = iteration + 1
     \<and> iterations (gradient_optimization config) \<le> max_iterations
     \<and> max_iterations = 1000
     \<and> fitness_history (gradient_optimization config) = history
     \<and> optimized_parameters (gradient_optimization config) = array_to_params x
     \<and> x = gradient_iterate (objectives config) (length history)
     \<and> length history \<le> max_iterations
     \<and> (length history < max_iterations \<longrightarrow>
          iterations (gradient_optimization config) = length history + 1
          \<and> np_norm (vec_sub (gradient_update (objectives config) x) x) < tolerance
          \<and> tolerance = 1 / 1000000)"
proof -
  have pos: "0 < max_iterations" by (simp add: max_iterations_def)
  have start: "x0 = gradient_iterate (objectives config) 0" by simp
  have len: "length ([] :: real list) = 0" by simp
  have inv: "length history \<le> max_iterations
     \<and> iteration = min (length history) (max_iterations - 1)
     \<and> x = gradient_iterate (objectives config) (length history)
     \<and> (length history < max_iterations \<longrightarrow>
          np_norm (vec_sub (gradient_update (objectives config) x) x) < tolerance)"
    using gradient_loop_range [OF assms [unfolded gradient_run_def] pos len start]
    by blast
  have res: "iterations (gradient_optimization config) = iteration + 1"
    "fitness_history (gradient_optimization config) = history"
    "optimized_parameters (gradient_optimization config) = array_to_params x"
    using assms by (simp_all add: gradient_optimization_def Let_def)
  from inv have "iteration + 1 \<le> max_iterations"
    using pos by simp
  moreover from inv have "length history < max_iterations \<Longrightarrow> iteration = length history"
    by simp
  ultimately show ?thesis
    using inv res by (auto simp: max_iterations_def tolerance_def)
qed

lemma gradient_update_cost_only:
  "gradient_update \<lparr>maximize = [], minimize = [''specific_cost''], weights = w\<rparr>
      [a, b, c, d, e, f, g]
    = [np_clip (a - dict_get w ''specific_cost'' 1 / 600) 3 25, np_clip b 800 1600,
       np_clip c 0.75 0.95, np_clip d 0.80 0.95, np_clip e 10 40, np_clip f 453 523,
       np_clip g 0.5 4]"
proof -
  have "h_default \<noteq> 0" by (simp add: h_default_def)
  then show ?thesis
    unfolding gradient_update_def
    by (simp add: numerical_gradient_cost_only apply_bounds_def bounds_def learning_rate_def)
qed

lemma np_norm_first: "np_norm [d, 0, 0, 0, 0, 0, 0] = \<bar>d\<bar>"
  by (simp add: np_norm_def)

lemma first_step_small:
  "vec_sub (gradient_update \<lparr>maximize = [], minimize = [''specific_cost''],
                weights = [''specific_cost'' \<mapsto> 3 / 10000]\<rparr> x0) x0 = [- (1 / 2000000), 0, 0, 0, 0, 0, 0]"
  unfolding x0_def gradient_update_cost_only
  by (simp add: vec_sub_def np_clip_def dict_get_upd)

lemma first_step_norm:
  "np_norm (vec_sub (gradient_update \<lparr>maximize = [], minimize = [''specific_cost''],
                weights = [''specific_cost'' \<mapsto> 3 / 10000]\<rparr> x0) x0) < tolerance"
  unfolding first_step_small np_norm_first by (simp add: tolerance_def)

lemma range_max_iterations: "[0..<max_iterations] = 0 # [Suc 0..<max_iterations]"
  by (rule upt_conv_Cons) (simp add: max_iterations_def)

lemma gradient_run_break_first:
  "np_norm (vec_sub (gradient_update obj x0) x0) < tolerance \<Longrightarrow> gradient_run obj = (x0, [], 0)"
  unfolding gradient_run_def range_max_iterations by simp

text \<open>
  C9. When the first proposed update moves the initial guess by less than the
  tolerance, the loop breaks before any fitness value is recorded: the result has an
  empty fitness history, the fitness score \<open>0\<close> whatever the fitness at the initial
  guess is, and the convergence diagnostics \<open>converged = False\<close>, \<open>stability = 0\<close>.
\<close>

theorem gradient_first_step_converged:
  assumes "np_norm (vec_sub (gradient_update (objectives config) x0) x0) < tolerance"
  shows "fitness_history (gradient_optimization config) = []
     \<and> fitness_score (gradient_optimization config) = 0
     \<and> convergence (gradient_optimization config)
         = \<lparr>converged = False, stability = 0, final_improvement = None\<rparr>
     \<and> iterations (gradient_optimization config) = 1
     \<and> optimized_parameters (gradient_optimization config) = array_to_params x0"
  using gradient_run_break_first [OF assms]
  by (simp add: gradient_optimization_def calculate_convergence_def Let_def)

theorem gradient_first_step_converged_witness:
  "np_norm (vec_sub (gradient_update
       \<lparr>maximize = [], minimize = [''specific_cost''],
        weights = [''specific_cost'' \<mapsto> 3 / 10000]\<rparr> x0) x0) < tolerance
   \<and> evaluate_fitness (array_to_params x0)
       \<lparr>maximize = [], minimize = [''specific_cost''],
        weights = [''specific_cost'' \<mapsto> 3 / 10000]\<rparr> = - (3 / 100000)
   \<and> fitness_score (gradient_optimization
       \<lparr>objectives = \<lparr>maximize = [], minimize = [''specific_cost''],
                      weights = [''specific_cost'' \<mapsto> 3 / 10000]\<rparr>,
        constraints = None, cfg_method = Member GRADIENT, population_size = 50,
        generations = 100, mutation_rate = 0.1\<rparr>) = 0
   \<and> fitness_history (gradient_optimization
       \<lparr>objectives = \<lparr>maximize = [], minimize = [''specific_cost''],
                      weights = [''specific_cost'' \<mapsto> 3 / 10000]\<rparr>,
        constraints = None, cfg_method = Member GRADIENT, population_size = 50,
        generations = 100, mutation_rate = 0.1\<rparr>) = []"
proof -
  have fit: "evaluate_fitness (array_to_params x0)
       \<lparr>maximize = [], minimize = [''specific_cost''],
        weights = [''specific_cost'' \<mapsto> 3 / 10000]\<rparr> = - (3 / 100000)"
    by (simp add: evaluate_fitness_cost_only pressure_ratio_array dict_get_upd x0_def)
  show ?thesis
    using first_step_norm fit
      gradient_first_step_converged [of "\<lparr>objectives = \<lparr>maximize = [], minimize = [''specific_cost''],
                      weights = [''specific_cost'' \<mapsto> 3 / 10000]\<rparr>,
        constraints = None, cfg_method = Member GRADIENT, population_size = 50,
        generations = 100, mutation_rate = 0.1\<rparr>"]
    by simp
qed

theorem gradient_termination_witness:
  "gradient_run \<lparr>maximize = [], minimize = [''specific_cost''],
        weights = [''specific_cost'' \<mapsto> 3 / 10000]\<rparr> = (x0, [], 0)
   \<and> iterations (gradient_optimization
       \<lparr>objectives = \<lparr>maximize = [], minimize = [''specific_cost''],
                      weights = [''specific_cost'' \<mapsto> 3 / 10000]\<rparr>,
        constraints = None, cfg_method = Member GRADIENT, population_size = 50,
        generations = 100, mutation_rate = 0.1\<rparr>) = 1
   \<and> length ([] :: real list) < max_iterations
   \<and> np_norm (vec_sub (gradient_update
       \<lparr>maximize = [], minimize = [''specific_cost''],
        weights = [''specific_cost'' \<mapsto> 3 / 10000]\<rparr> x0) x0) < tolerance"
proof -
  have run: "gradient_run \<lparr>maximize = [], minimize = [''specific_cost''],
        weights = [''specific_cost'' \<mapsto> 3 / 10000]\<rparr> = (x0, [], 0)"
    by (rule gradient_run_break_first [OF first_step_norm])
  show ?thesis
    using run gradient_termination [of "\<lparr>objectives = \<lparr>maximize = [], minimize = [''specific_cost''],
                      weights = [''specific_cost'' \<mapsto> 3 / 10000]\<rparr>,
        constraints = None, cfg_method = Member GRADIENT, population_size = 50,
        generations = 100, mutation_rate = 0.1\<rparr>" x0 "[]" 0]
    by (simp add: max_iterations_def)
qed


subsection \<open>The Pareto optimizer\<close>

lemma set_sort_reverse: "set (sort_reverse key xs) = set xs"
  by (simp add: sort_reverse_def)

lemma mem_find_pareto_frontier:
  "s \<in> set (find_pareto_frontier sols) \<longleftrightarrow> s \<in> set sols \<and> (\<forall>other \<in> set sols. \<not> dominates other s)"
  by (auto simp: find_pareto_frontier_def list_ex_iff)

lemma mem_pareto_frontier:
  "s \<in> set (pareto_frontier (pareto_optimization config)) \<longleftrightarrow>
     s \<in> set (all_solutions (pareto_optimization config)) \<and>
     (\<forall>other \<in> set (all_solutions (pareto_optimization config)). \<not> dominates other s)"
  by (simp add: pareto_optimization_def Let_def set_sort_reverse mem_find_pareto_frontier)

text \<open>
  C1. The Pareto frontier returned by the Pareto optimizer holds no dominated solution,
  for every configuration: for solutions \<open>A\<close> and \<open>B\<close> of the frontier it is not the
  case that \<open>B\<close> is at least as efficient, at least as powerful and at most as costly
  as \<open>A\<close>, and strictly better in one of the three.
\<close>

theorem pareto_non_domination:
  "\<forall>A \<in> set (pareto_frontier (pareto_optimization config)).
   \<forall>B \<in> set (pareto_frontier (pareto_optimization config)).
     \<not> (efficiency B \<ge> efficiency A \<and> power_kw B \<ge> power_kw A \<and> cost B \<le> cost A \<and>
        (efficiency B > efficiency A \<or> power_kw B > power_kw A \<or> cost B < cost A))"
proof (intro ballI)
  fix A B
  assume A: "A \<in> set (pareto_frontier (pareto_optimization config))"
    and B: "B \<in> set (pareto_frontier (pareto_optimization config))"
  from B have "B \<in> set (all_solutions (pareto_optimization config))"
    by (simp add: mem_pareto_frontier)
  with A have "\<not> dominates B A"
    by (simp add: mem_pareto_frontier)
  then show "\<not> (efficiency B \<ge> efficiency A \<and> power_kw B \<ge> power_kw A \<and> cost B \<le> cost A \<and>
        (efficiency B > efficiency A \<or> power_kw B > power_kw A \<or> cost B < cost A))"
    by (simp add: dominates_def)
qed

text \<open>
  The frontier of the second copy holds no solution dominated under its two-criterion
  rule; and none dominated under the three-criterion rule when solutions of equal
  efficiency have equal power, as they do there (the net power of its performance
  model is \<open>100000 * (efficiency / 0.35)\<close>).
\<close>

lemma second_copy_non_domination:
  "(\<forall>A \<in> set (find_pareto_frontier2 sols). \<forall>B \<in> set (find_pareto_frontier2 sols).
      \<not> dominates2 B A)
   \<and> ((\<forall>a \<in> set sols. \<forall>b \<in> set sols. efficiency a = efficiency b \<longrightarrow> power_kw a = power_kw b) \<longrightarrow>
      (\<forall>A \<in> set (find_pareto_frontier2 sols). \<forall>B \<in> set (find_pareto_frontier2 sols).
         \<not> dominates B A))"
proof -
  have mem: "s \<in> set (find_pareto_frontier2 sols) \<longleftrightarrow>
      s \<in> set sols \<and> (\<forall>other \<in> set sols. \<not> dominates2 other s)" for s
    by (auto simp: find_pareto_frontier2_def set_sort_reverse list_ex_iff)
  have two: "\<forall>A \<in> set (find_pareto_frontier2 sols). \<forall>B \<in> set (find_pareto_frontier2 sols).
      \<not> dominates2 B A"
    by (simp add: mem)
  have three: "\<not> dominates B A"
    if eq: "\<forall>a \<in> set sols. \<forall>b \<in> set sols. efficiency a = efficiency b \<longrightarrow> power_kw a = power_kw b"
      and A: "A \<in> set (find_pareto_frontier2 sols)" and B: "B \<in> set (find_pareto_frontier2 sols)"
    for A B
  proof
    assume d: "dominates B A"
    from A B two have n: "\<not> dominates2 B A" by blast
    from d n have e: "efficiency B = efficiency A" and p: "power_kw B > power_kw A"
      unfolding dominates_def dominates2_def by linarith+
    from A B have "A \<in> set sols" "B \<in> set sols" by (simp_all add: mem)
    with eq e have "power_kw B = power_kw A" by blast
    with p show False by simp
  qed
  from two three show ?thesis by blast
qed

lemma dominates_irrefl: "\<not> dominates a a"
  by (simp add: dominates_def)

lemma dominates_trans: "dominates a b \<Longrightarrow> dominates b c \<Longrightarrow> dominates a c"
  by (auto simp: dominates_def)

lemma dominates_score:
  "dominates other s \<Longrightarrow>
     efficiency s + power_kw s - cost s < efficiency other + power_kw other - cost other"
  by (auto simp: dominates_def)

lemma exists_non_dominated:
  assumes "sols \<noteq> []"
  shows "\<exists>m \<in> set sols. \<forall>other \<in> set sols. \<not> dominates other m"
proof -
  let ?f = "\<lambda>s. efficiency s + power_kw s - cost s"
  have fin: "finite (?f ` set sols)" and ne: "?f ` set sols \<noteq> {}"
    using assms by simp_all
  from Max_in [OF fin ne] obtain m where m: "m \<in> set sols" "?f m = Max (?f ` set sols)"
    by auto
  have "\<not> dominates other m" if "other \<in> set sols" for other
  proof
    assume "dominates other m"
    then have "?f m < ?f other" by (rule dominates_score)
    moreover have "?f other \<le> Max (?f ` set sols)"
      using that fin by (intro Max_ge) auto
    ultimately show False using m(2) by simp
  qed
  with m(1) show ?thesis by blast
qed

lemma find_pareto_frontier_nonempty: "sols \<noteq> [] \<Longrightarrow> find_pareto_frontier sols \<noteq> []"
proof -
  assume "sols \<noteq> []"
  from exists_non_dominated [OF this] obtain m where
    "m \<in> set (find_pareto_frontier sols)"
    by (auto simp: mem_find_pareto_frontier)
  then show ?thesis by auto
qed

lemma sort_reverse_nonempty: "xs \<noteq> [] \<Longrightarrow> sort_reverse key xs \<noteq> []"
  using set_sort_reverse [of key xs] by (metis set_empty)

lemma sample_unconstrained:
  "\<not> truthy cons \<Longrightarrow>
     sample cons pr tt = [make_solution (grid_params pr tt) (evaluate_system_performance (grid_params pr tt))]"
  by (simp add: sample_def Let_def)

lemma np_linspace_first: "0 < n \<Longrightarrow> a \<in> set (np_linspace a b n)"
proof -
  assume "0 < n"
  then have "0 \<in> set [0..<n]" by simp
  then have "a + real 0 * ((b - a) / real (n - 1)) \<in> set (np_linspace a b n)"
    unfolding np_linspace_def by (intro imageI [where f = "\<lambda>i. a + real i * ((b - a) / real (n - 1))", of 0 "set [0..<n]", folded set_map])
  then show ?thesis by simp
qed

lemma pressure_ratios_first: "3 \<in> set pressure_ratios"
  unfolding pressure_ratios_def by (rule np_linspace_first) (simp add: n_samples_def)

lemma turbine_temps_first: "800 \<in> set turbine_temps"
  unfolding turbine_temps_def by (rule np_linspace_first) (simp add: n_samples_def)

lemma mem_sample_solutions:
  "s \<in> set (sample_solutions cons) \<longleftrightarrow>
     (\<exists>pr \<in> set pressure_ratios. \<exists>tt \<in> set turbine_temps. s \<in> set (sample cons pr tt))"
  by (auto simp: sample_solutions_def)

lemma sample_solutions_unconstrained_nonempty:
  "\<not> truthy cons \<Longrightarrow> sample_solutions cons \<noteq> []"
proof -
  assume "\<not> truthy cons"
  then have "make_solution (grid_params 3 800) (evaluate_system_performance (grid_params 3 800))
      \<in> set (sample_solutions cons)"
    unfolding mem_sample_solutions
    using pressure_ratios_first turbine_temps_first by (auto simp: sample_unconstrained)
  then show ?thesis by auto
qed

text \<open>
  C10. When a candidate solution survives the constraint filtering, the returned
  frontier is not empty; with no constraints supplied (\<^verbatim>\<open>None\<close> or the empty
  dictionary) the frontier is never empty. The dominance relation is irreflexive and
  transitive.
\<close>

theorem pareto_frontier_nonempty:
  "(all_solutions (pareto_optimization config) \<noteq> [] \<longrightarrow>
      pareto_frontier (pareto_optimization config) \<noteq> [])
   \<and> (constraints config = None \<or> constraints config = Some Map.empty \<longrightarrow>
        pareto_frontier (pareto_optimization config) \<noteq> [])
   \<and> \<not> dominates a a
   \<and> (dominates a b \<and> dominates b c \<longrightarrow> dominates a c)"
proof -
  have step: "all_solutions (pareto_optimization config) \<noteq> [] \<Longrightarrow>
      pareto_frontier (pareto_optimization config) \<noteq> []"
    by (simp add: pareto_optimization_def Let_def sort_reverse_nonempty find_pareto_frontier_nonempty)
  have "constraints config = None \<or> constraints config = Some Map.empty \<Longrightarrow>
      all_solutions (pareto_optimization config) \<noteq> []"
    using sample_solutions_unconstrained_nonempty [of "constraints config"]
    by (auto simp: pareto_optimization_def Let_def truthy_def)
  with step show ?thesis
    using dominates_irrefl dominates_trans by blast
qed

lemma efficiency_grid:
  "efficiency (grid_solution pr tt) =
     (1 - 1 / pr powr (2 / 7)) * 0.85 * 0.90 * (1 - 0.1 * (tt - 1000) / 1000)"
  by (simp add: grid_solution_def make_solution_def evaluate_system_performance_def grid_params_def
      Let_def dict_get_upd dict_get_empty)

lemma power_grid:
  "power_kw (grid_solution pr tt) = 100000 * (efficiency (grid_solution pr tt) / 0.35)"
  by (simp add: grid_solution_def make_solution_def evaluate_system_performance_def grid_params_def
      Let_def dict_get_upd dict_get_empty)

lemma cost_grid:
  "cost (grid_solution pr tt) = 1000 * (1 + 0.1 * (pr - 6) / 6)"
  by (simp add: grid_solution_def make_solution_def evaluate_system_performance_def grid_params_def
      Let_def dict_get_upd dict_get_empty)

lemma np_linspace_bounds:
  assumes "v \<in> set (np_linspace a b n)" and "a \<le> b"
  shows "a \<le> v \<and> v \<le> b"
proof -
  from assms(1) obtain i where i: "i < n" and v: "v = a + real i * ((b - a) / real (n - 1))"
    by (auto simp: np_linspace_def)
  have nonneg: "0 \<le> real i * ((b - a) / real (n - 1))"
    using assms(2) by simp
  have "real i * ((b - a) / real (n - 1)) \<le> b - a"
  proof (cases "n - 1 = 0")
    case True
    with i have "i = 0" by simp
    then show ?thesis using assms(2) by simp
  next
    case False
    then have pos: "0 < real (n - 1)" by simp
    from i have "real i \<le> real (n - 1)" by simp
    then have "real i * (b - a) \<le> real (n - 1) * (b - a)"
      using assms(2) by (intro mult_right_mono) simp_all
    then have "real i * (b - a) / real (n - 1) \<le> b - a"
      using pos by (simp add: field_simps)
    then show ?thesis by simp
  qed
  with nonneg v show ?thesis by simp
qed

lemma three_powr: "1 \<le> (3 :: real) powr (2 / 7)"
  by (rule ge_one_powr_ge_zero) simp_all

lemma mem_unconstrained_solutions:
  "s \<in> set (sample_solutions None) \<longleftrightarrow>
     (\<exists>pr \<in> set pressure_ratios. \<exists>tt \<in> set turbine_temps. s = grid_solution pr tt)"
  by (simp add: mem_sample_solutions sample_unconstrained truthy_def grid_solution_def)

lemma lowest_corner_not_dominated:
  assumes "other \<in> set (sample_solutions None)"
  shows "\<not> dominates other (grid_solution 3 800)"
proof
  assume dom: "dominates other (grid_solution 3 800)"
  from assms obtain pr tt where pr: "pr \<in> set pressure_ratios" and tt: "tt \<in> set turbine_temps"
    and other: "other = grid_solution pr tt"
    by (auto simp: mem_unconstrained_solutions)
  from pr have "3 \<le> pr" using np_linspace_bounds [of pr 3 25 n_samples]
    by (simp add: pressure_ratios_def)
  moreover from dom have "cost other \<le> cost (grid_solution 3 800)"
    by (simp add: dominates_def)
  then have "pr \<le> 3" unfolding other cost_grid by argo
  ultimately have pr3: "pr = 3" by simp
  from tt have tt800: "800 \<le> tt" using np_linspace_bounds [of tt 800 1600 n_samples]
    by (simp add: turbine_temps_def)
  have "1 / (3 :: real) powr (2 / 7) \<le> 1"
    using three_powr by (simp add: divide_le_eq_1)
  then have "0 \<le> 1 - 1 / (3 :: real) powr (2 / 7)"
    by simp
  then have c: "0 \<le> (1 - 1 / (3 :: real) powr (2 / 7)) * 0.85 * 0.90"
    by (intro mult_nonneg_nonneg) simp_all
  have "1 - 0.1 * (tt - 1000) / 1000 \<le> 1 - 0.1 * (800 - 1000) / 1000"
    using tt800 by argo
  then have e: "efficiency other \<le> efficiency (grid_solution 3 800)"
    unfolding other pr3 efficiency_grid using c by (intro mult_left_mono) simp_all
  then have p: "power_kw other \<le> power_kw (grid_solution 3 800)"
    unfolding other power_grid by simp
  have k: "cost other = cost (grid_solution 3 800)"
    unfolding other pr3 cost_grid by simp
  from dom e p k show False by (simp add: dominates_def)
qed

lemma lowest_corner_in_solutions: "grid_solution 3 800 \<in> set (sample_solutions None)"
  unfolding mem_unconstrained_solutions
  using pressure_ratios_first turbine_temps_first by blast

lemma np_linspace_last: "1 < n \<Longrightarrow> b \<in> set (np_linspace a b n)"
proof -
  assume n: "1 < n"
  then have "n - 1 \<in> set [0..<n]" by simp
  then have "a + real (n - 1) * ((b - a) / real (n - 1)) \<in> set (np_linspace a b n)"
    unfolding np_linspace_def set_map by (rule imageI)
  moreover have "real (n - 1) * ((b - a) / real (n - 1)) = b - a"
    using n by simp
  ultimately show ?thesis by simp
qed

lemma pressure_ratios_last: "25 \<in> set pressure_ratios"
  unfolding pressure_ratios_def by (rule np_linspace_last) (simp add: n_samples_def)

lemma highest_corner_in_solutions: "grid_solution 25 800 \<in> set (sample_solutions None)"
  unfolding mem_unconstrained_solutions
  using pressure_ratios_last turbine_temps_first by blast

lemma ideal_efficiency_mono:
  assumes "3 \<le> pr" and "pr < (25 :: real)"
  shows "1 - 1 / pr powr (2 / 7) < 1 - 1 / 25 powr (2 / 7)"
proof -
  have "pr powr (2 / 7) < 25 powr (2 / 7)"
    using assms by (intro powr_less_mono2) simp_all
  moreover have "0 < pr powr (2 / 7)"
    using assms by simp
  ultimately have "1 / 25 powr (2 / 7) < 1 / pr powr (2 / 7)"
    by (simp add: frac_less2)
  then show ?thesis by simp
qed

lemma ideal_efficiency_nonneg:
  assumes "3 \<le> (pr :: real)"
  shows "0 \<le> 1 - 1 / pr powr (2 / 7)"
proof -
  have "1 \<le> pr powr (2 / 7)"
    using assms by (intro ge_one_powr_ge_zero) simp_all
  then have "1 / pr powr (2 / 7) \<le> 1"
    by (simp add: divide_le_eq_1)
  then show ?thesis by simp
qed

lemma highest_corner_not_dominated:
  assumes "other \<in> set (sample_solutions None)"
  shows "\<not> dominates other (grid_solution 25 800)"
proof
  assume dom: "dominates other (grid_solution 25 800)"
  from assms obtain pr tt where pr: "pr \<in> set pressure_ratios" and tt: "tt \<in> set turbine_temps"
    and other: "other = grid_solution pr tt"
    by (auto simp: mem_unconstrained_solutions)
  from pr have pr_bounds: "3 \<le> pr" "pr \<le> 25" using np_linspace_bounds [of pr 3 25 n_samples]
    by (simp_all add: pressure_ratios_def)
  from tt have tt_bounds: "800 \<le> tt" "tt \<le> 1600" using np_linspace_bounds [of tt 800 1600 n_samples]
    by (simp_all add: turbine_temps_def)
  let ?i = "\<lambda>p :: real. 1 - 1 / p powr (2 / 7)"
  let ?f = "\<lambda>t :: real. 1 - 0.1 * (t - 1000) / 1000"
  have f_le: "?f tt \<le> ?f 800" using tt_bounds by argo
  have f_pos: "0 < ?f 800" by simp
  have i_nonneg: "0 \<le> ?i pr" using pr_bounds(1) by (rule ideal_efficiency_nonneg)
  have eff: "efficiency (grid_solution p t) = ?i p * (0.85 * 0.90 * ?f t)" for p t
    unfolding efficiency_grid by (simp only: mult.assoc)
  have le1: "efficiency other \<le> ?i pr * (0.85 * 0.90 * ?f 800)"
    unfolding other eff using i_nonneg f_le by (intro mult_left_mono) simp_all
  show False
  proof (cases "pr < 25")
    case True
    then have "?i pr < ?i 25" using pr_bounds(1) by (intro ideal_efficiency_mono)
    then have "?i pr * (0.85 * 0.90 * ?f 800) < ?i 25 * (0.85 * 0.90 * ?f 800)"
      by (intro mult_strict_right_mono) simp_all
    with le1 have "efficiency other < efficiency (grid_solution 25 800)"
      unfolding eff [of 25 800] by simp
    with dom show False by (simp add: dominates_def)
  next
    case False
    with pr_bounds have pr25: "pr = 25" by simp
    from le1 have e: "efficiency other \<le> efficiency (grid_solution 25 800)"
      unfolding pr25 eff [of 25 800] .
    then have p: "power_kw other \<le> power_kw (grid_solution 25 800)"
      unfolding other power_grid by simp
    have k: "cost other = cost (grid_solution 25 800)"
      unfolding other pr25 cost_grid by simp
    from dom e p k show False by (simp add: dominates_def)
  qed
qed

lemma corners_in_frontier:
  "constraints config = None \<Longrightarrow>
     grid_solution 3 800 \<in> set (pareto_frontier (pareto_optimization config))
     \<and> grid_solution 25 800 \<in> set (pareto_frontier (pareto_optimization config))"
  unfolding mem_pareto_frontier
  using lowest_corner_in_solutions lowest_corner_not_dominated
    highest_corner_in_solutions highest_corner_not_dominated
  by (simp add: pareto_optimization_def Let_def)

theorem pareto_non_domination_witness:
  "grid_solution 3 800 \<in> set (pareto_frontier (pareto_optimization
       \<lparr>objectives = \<lparr>maximize = [], minimize = [], weights = Map.empty\<rparr>,
        constraints = None, cfg_method = Member PARETO, population_size = 50,
        generations = 100, mutation_rate = 0.1\<rparr>))
   \<and> grid_solution 25 800 \<in> set (pareto_frontier (pareto_optimization
       \<lparr>objectives = \<lparr>maximize = [], minimize = [], weights = Map.empty\<rparr>,
        constraints = None, cfg_method = Member PARETO, population_size = 50,
        generations = 100, mutation_rate = 0.1\<rparr>))
   \<and> \<not> (efficiency (grid_solution 25 800) \<ge> efficiency (grid_solution 3 800)
        \<and> power_kw (grid_solution 25 800) \<ge> power_kw (grid_solution 3 800)
        \<and> cost (grid_solution 25 800) \<le> cost (grid_solution 3 800)
        \<and> (efficiency (grid_solution 25 800) > efficiency (grid_solution 3 800)
           \<or> power_kw (grid_solution 25 800) > power_kw (grid_solution 3 800)
           \<or> cost (grid_solution 25 800) < cost (grid_solution 3 800)))"
proof -
  let ?c = "\<lparr>objectives = \<lparr>maximize = [], minimize = [], weights = Map.empty\<rparr>,
        constraints = None, cfg_method = Member PARETO, population_size = 50,
        generations = 100, mutation_rate = 0.1\<rparr>"
  have mem: "grid_solution 3 800 \<in> set (pareto_frontier (pareto_optimization ?c))
     \<and> grid_solution 25 800 \<in> set (pareto_frontier (pareto_optimization ?c))"
    by (rule corners_in_frontier) simp
  with pareto_non_domination [of ?c] show ?thesis
    by blast
qed

theorem pareto_frontier_nonempty_witness:
  "all_solutions (pareto_optimization
       \<lparr>objectives = \<lparr>maximize = [], minimize = [], weights = Map.empty\<rparr>,
        constraints = None, cfg_method = Member PARETO, population_size = 50,
        generations = 100, mutation_rate = 0.1\<rparr>) \<noteq> []
   \<and> pareto_frontier (pareto_optimization
       \<lparr>objectives = \<lparr>maximize = [], minimize = [], weights = Map.empty\<rparr>,
        constraints = None, cfg_method = Member PARETO, population_size = 50,
        generations = 100, mutation_rate = 0.1\<rparr>) \<noteq> []
   \<and> dominates
        \<lparr>parameters = Map.empty, performance = Map.empty, efficiency = 2, power_kw = 2, cost = 1\<rparr>
        \<lparr>parameters = Map.empty, performance = Map.empty, efficiency = 1, power_kw = 2, cost = 1\<rparr>
   \<and> dominates
        \<lparr>parameters = Map.empty, performance = Map.empty, efficiency = 1, power_kw = 2, cost = 1\<rparr>
        \<lparr>parameters = Map.empty, performance = Map.empty, efficiency = 1, power_kw = 2, cost = 3\<rparr>
   \<and> dominates
        \<lparr>parameters = Map.empty, performance = Map.empty, efficiency = 2, power_kw = 2, cost = 1\<rparr>
        \<lparr>parameters = Map.empty, performance = Map.empty, efficiency = 1, power_kw = 2, cost = 3\<rparr>"
proof -
  let ?c = "\<lparr>objectives = \<lparr>maximize = [], minimize = [], weights = Map.empty\<rparr>,
        constraints = None, cfg_method = Member PARETO, population_size = 50,
        generations = 100, mutation_rate = 0.1\<rparr>"
  have sols: "all_solutions (pareto_optimization ?c) \<noteq> []"
    using sample_solutions_unconstrained_nonempty [of None]
    by (simp add: pareto_optimization_def Let_def truthy_def)
  have d1: "dominates
        \<lparr>parameters = Map.empty, performance = Map.empty, efficiency = 2, power_kw = 2, cost = 1\<rparr>
        \<lparr>parameters = Map.empty, performance = Map.empty, efficiency = 1, power_kw = 2, cost = 1\<rparr>"
    and d2: "dominates
        \<lparr>parameters = Map.empty, performance = Map.empty, efficiency = 1, power_kw = 2, cost = 1\<rparr>
        \<lparr>parameters = Map.empty, performance = Map.empty, efficiency = 1, power_kw = 2, cost = 3\<rparr>"
    by (simp_all add: dominates_def)
  show ?thesis
    using sols d1 d2
      pareto_frontier_nonempty [of ?c
        "\<lparr>parameters = Map.empty, performance = Map.empty, efficiency = 2, power_kw = 2, cost = 1\<rparr>"
        "\<lparr>parameters = Map.empty, performance = Map.empty, efficiency = 1, power_kw = 2, cost = 1\<rparr>"
        "\<lparr>parameters = Map.empty, performance = Map.empty, efficiency = 1, power_kw = 2, cost = 3\<rparr>"]
    by blast
qed


subsection \<open>The genetic optimizer: the fitness history\<close>

lemma improves_iff: "improves fitness b \<longleftrightarrow> map_option fst b < Some fitness"
  by (cases b) (auto simp: improves_def)

lemma evaluate_population_props:
  "evaluate_population obj population (scores, b) = (scores', b') \<Longrightarrow>
     map_option fst b \<le> map_option fst b'
     \<and> length scores' = length scores + length population
     \<and> (population \<noteq> [] \<longrightarrow> b' \<noteq> None)
     \<and> (b \<noteq> None \<longrightarrow> b' \<noteq> None)
     \<and> (\<forall>f p. b' = Some (f, p) \<longrightarrow> b = Some (f, p) \<or> p \<in> set population)"
proof (induction population arbitrary: scores b)
  case Nil
  then show ?case by simp
next
  case (Cons individual rest)
  let ?f = "evaluate_fitness individual obj"
  let ?b = "if improves ?f b then Some (?f, individual) else b"
  from Cons.prems have run: "evaluate_population obj rest (scores @ [?f], ?b) = (scores', b')"
    by (simp add: Let_def)
  note ih = Cons.IH [OF run]
  have "map_option fst b \<le> map_option fst ?b"
    by (auto simp: improves_iff less_imp_le)
  with ih have 1: "map_option fst b \<le> map_option fst b'"
    by (blast intro: order_trans)
  have 2: "?b \<noteq> None"
    by (cases b) (auto simp: improves_def)
  have 3: "\<forall>f p. b' = Some (f, p) \<longrightarrow> b = Some (f, p) \<or> p \<in> set (individual # rest)"
    using ih by (auto split: if_splits)
  from ih 1 2 3 show ?case by simp
qed

lemma generation_props:
  assumes "generation R config (population, b, history) s = (Inr (population', b', history'), s')"
  shows "history' = history @ [map_option fst b']"
    and "map_option fst b \<le> map_option fst b'"
    and "population \<noteq> [] \<longrightarrow> b' \<noteq> None"
    and "b \<noteq> None \<longrightarrow> b' \<noteq> None"
    and "\<forall>f p. b' = Some (f, p) \<longrightarrow> b = Some (f, p) \<or> p \<in> set population"
proof -
  obtain scores b1 where ev: "evaluate_population (objectives config) population ([], b) = (scores, b1)"
    by (cases "evaluate_population (objectives config) population ([], b)") auto
  from assms ev have "b' = b1 \<and> history' = history @ [map_option fst b1]"
    by (auto simp: generation_def split: prod.splits sum.splits)
  with evaluate_population_props [OF ev]
  show "history' = history @ [map_option fst b']"
    and "map_option fst b \<le> map_option fst b'"
    and "population \<noteq> [] \<longrightarrow> b' \<noteq> None"
    and "b \<noteq> None \<longrightarrow> b' \<noteq> None"
    and "\<forall>f p. b' = Some (f, p) \<longrightarrow> b = Some (f, p) \<or> p \<in> set population"
    by auto
qed

text \<open>The history is sorted and bounded by the best fitness.\<close>

lemma evolve_history:
  "evolve R config n (population, b, history) s = (Inr (population', b', history'), s') \<Longrightarrow>
   sorted history \<Longrightarrow> \<forall>h \<in> set history. h \<le> map_option fst b \<Longrightarrow>
     sorted history' \<and> (\<forall>h \<in> set history'. h \<le> map_option fst b')
     \<and> length history' = length history + n
     \<and> (n > 0 \<longrightarrow> last history' = map_option fst b')"
proof (induction n arbitrary: population b history s)
  case 0
  then show ?case by simp
next
  case (Suc n)
  from Suc.prems(1) obtain p1 b1 h1 s1 where
    gen: "generation R config (population, b, history) s = (Inr (p1, b1, h1), s1)"
    and rest: "evolve R config n (p1, b1, h1) s1 = (Inr (population', b', history'), s')"
    by (auto split: prod.splits sum.splits)
  note g = generation_props [OF gen]
  have bound: "\<forall>h \<in> set h1. h \<le> map_option fst b1"
    using g(1,2) Suc.prems(3) by (auto intro: order_trans)
  have srt: "sorted h1"
    using g(1) Suc.prems(2) bound by (simp add: sorted_append)
  note ih = Suc.IH [OF rest srt bound]
  have "last history' = map_option fst b'"
  proof (cases n)
    case 0
    with rest g(1) show ?thesis by auto
  next
    case (Suc m)
    with ih show ?thesis by simp
  qed
  with ih g(1) show ?case by simp
qed

lemma those_map_Some: "those xs = Some ys \<Longrightarrow> xs = map Some ys"
  by (induction xs arbitrary: ys) (auto split: option.splits)

lemma sorted_map_Some: "sorted (map Some ys) \<Longrightarrow> sorted (ys :: real list)"
  by (induction ys) (auto)

lemma list_get_Inr: "list_get xs i = Inr v \<longleftrightarrow> i < length xs \<and> v = xs ! i"
  by (auto simp: list_get_def)

lemma list_gets_total:
  "\<forall>i \<in> set idx. i < length xs \<Longrightarrow> \<exists>vs. list_gets xs idx = Inr vs \<and> length vs = length idx"
  by (induction idx) (auto simp: list_get_def)

lemma argmax_from_bound: "best_i < i \<Longrightarrow> argmax_from vs i best_i best_v < i + length vs"
proof (induction vs arbitrary: i best_i best_v)
  case Nil
  then show ?case by simp
next
  case (Cons v vs)
  have "argmax_from vs (Suc i) i v < Suc i + length vs"
    by (rule Cons.IH) simp
  moreover have "argmax_from vs (Suc i) best_i best_v < Suc i + length vs"
    by (rule Cons.IH) (use Cons.prems in simp)
  ultimately show ?case by simp
qed

lemma np_argmax_total: "vs \<noteq> [] \<Longrightarrow> \<exists>k. np_argmax vs = Inr k \<and> k < length vs"
proof (cases vs)
  case Nil
  then show "vs \<noteq> [] \<Longrightarrow> ?thesis" by simp
next
  case (Cons v rest)
  then show ?thesis
    using argmax_from_bound [of 0 1 rest v] by (simp add: np_argmax_def)
qed

lemma tournament_member:
  "tournament R population fitness_scores s = (Inr winner, s') \<Longrightarrow> winner \<in> set population"
  by (auto simp: tournament_def list_get_def split: if_splits prod.splits sum.splits)

lemma tournament_total:
  assumes "choice_ok R" and "population \<noteq> []" and "length fitness_scores = length population"
  shows "\<exists>winner s'. tournament R population fitness_scores s = (Inr winner, s')"
proof -
  obtain idx s1 where ch: "np_choice R (length population) 3 s = (idx, s1)"
    by (cases "np_choice R (length population) 3 s") auto
  from assms(1,2) have idx: "length idx = 3" "\<forall>i \<in> set idx. i < length population"
    using ch unfolding choice_ok_def
    by (metis fst_conv length_greater_0_conv)+
  from list_gets_total [of idx fitness_scores] idx(2) assms(3)
  obtain vs where vs: "list_gets fitness_scores idx = Inr vs" "length vs = length idx"
    by auto
  with idx(1) have "vs \<noteq> []" by auto
  from np_argmax_total [OF this] obtain k where k: "np_argmax vs = Inr k" "k < length vs"
    by auto
  with vs(2) have kk: "k < length idx" by simp
  then have "idx ! k < length population"
    using idx(2) by simp
  with ch vs k kk assms(2) show ?thesis
    by (simp add: tournament_def list_get_def)
qed

lemma selection_props:
  "selection R population fitness_scores n new_population s = (Inr out, s') \<Longrightarrow>
     length out = length new_population + n \<and> set out \<subseteq> set new_population \<union> set population"
proof (induction n arbitrary: new_population s)
  case 0
  then show ?case by simp
next
  case (Suc n)
  from Suc.prems obtain winner s1 where
    t: "tournament R population fitness_scores s = (Inr winner, s1)"
    and rest: "selection R population fitness_scores n (new_population @ [winner]) s1 = (Inr out, s')"
    by (auto split: prod.splits sum.splits)
  from Suc.IH [OF rest] tournament_member [OF t] show ?case by auto
qed

lemma selection_total:
  assumes "choice_ok R" and "n > 0 \<longrightarrow> population \<noteq> []"
    and "length fitness_scores = length population"
  shows "\<exists>out s'. selection R population fitness_scores n new_population s = (Inr out, s')"
  using assms(2)
proof (induction n arbitrary: new_population s)
  case 0
  then show ?case by simp
next
  case (Suc n)
  then have ne: "population \<noteq> []" by simp
  from tournament_total [OF assms(1) ne assms(3)] obtain winner s1 where
    "tournament R population fitness_scores s = (Inr winner, s1)" by blast
  moreover from Suc.IH [of "new_population @ [winner]" s1] ne obtain out s' where
    "selection R population fitness_scores n (new_population @ [winner]) s1 = (Inr out, s')"
    by blast
  ultimately show ?case by simp
qed

lemma crossover_length:
  "crossover R idx new_population s = (Inr out, s') \<Longrightarrow> length out = length new_population"
proof (induction idx arbitrary: new_population s)
  case Nil
  then show ?case by simp
next
  case (Cons i rest)
  show ?case
  proof (cases "fst (np_random R s) < 0.8")
    case False
    with Cons.prems have "crossover R rest new_population (snd (np_random R s)) = (Inr out, s')"
      by (simp split: prod.splits)
    from Cons.IH [OF this] show ?thesis .
  next
    case True
    with Cons.prems obtain c1 c2 s2 where
      "crossover R rest (new_population[i := c1, i + 1 := c2]) s2 = (Inr out, s')"
      by (auto split: prod.splits sum.splits)
    from Cons.IH [OF this] show ?thesis by simp
  qed
qed

lemma mutation_length:
  "mutation R rate population s = (Inr out, s') \<Longrightarrow> length out = length population"
  by (induction population arbitrary: out s) (auto split: prod.splits sum.splits)

lemma generation_length:
  assumes "generation R config (population, b, history) s = (Inr (population', b', history'), s')"
  shows "length population' = nat (population_size config)"
proof -
  from assms obtain scores sel s1 cr s2 where
    "selection R population scores (nat (population_size config)) [] s = (Inr sel, s1)"
    "crossover R (crossover_indices (population_size config)) sel s1 = (Inr cr, s2)"
    "mutation R (mutation_rate config) cr s2 = (Inr population', s')"
    by (auto simp: generation_def split: prod.splits sum.splits)
  then show ?thesis
    using selection_props [of R population scores "nat (population_size config)" "[]" s sel s1]
      crossover_length mutation_length by fastforce
qed

lemma generation_empty:
  assumes "generation R config ([], b, history) s = (Inr (population', b', history'), s')"
  shows "b' = b"
  using assms by (auto simp: generation_def split: prod.splits sum.splits)

lemma evolve_empty:
  "evolve R config n ([], b, history) s = (Inr (population', b', history'), s') \<Longrightarrow>
   nat (population_size config) = 0 \<Longrightarrow> b' = b"
proof (induction n arbitrary: history s)
  case 0
  then show ?case by simp
next
  case (Suc n)
  from Suc.prems(1) obtain p1 b1 h1 s1 where
    gen: "generation R config ([], b, history) s = (Inr (p1, b1, h1), s1)"
    and rest: "evolve R config n (p1, b1, h1) s1 = (Inr (population', b', history'), s')"
    by (auto split: prod.splits sum.splits)
  from generation_length [OF gen] Suc.prems(2) have "p1 = []" by simp
  moreover from generation_empty [OF gen] have "b1 = b" .
  ultimately show ?case using Suc.IH rest Suc.prems(2) by blast
qed

lemma evolve_history_finite:
  "evolve R config n (population, b, history) s = (Inr (population', b', history'), s') \<Longrightarrow>
   length population = nat (population_size config) \<Longrightarrow> b' \<noteq> None \<Longrightarrow>
   \<forall>h \<in> set history. h \<noteq> None \<Longrightarrow> \<forall>h \<in> set history'. h \<noteq> None"
proof (induction n arbitrary: population b history s)
  case 0
  then show ?case by simp
next
  case (Suc n)
  from Suc.prems(1) obtain p1 b1 h1 s1 where
    gen: "generation R config (population, b, history) s = (Inr (p1, b1, h1), s1)"
    and rest: "evolve R config n (p1, b1, h1) s1 = (Inr (population', b', history'), s')"
    by (auto split: prod.splits sum.splits)
  note g = generation_props [OF gen]
  have "b1 \<noteq> None"
  proof (cases "population = []")
    case True
    with Suc.prems(1,2) have "b' = b"
      using evolve_empty [of R config "Suc n" b history s population' b' history' s'] by simp
    with Suc.prems(3) g(4) show ?thesis by simp
  next
    case False
    with g(3) show ?thesis by simp
  qed
  with g(1) Suc.prems(4) have "\<forall>h \<in> set h1. h \<noteq> None" by auto
  from Suc.IH [OF rest generation_length [OF gen] Suc.prems(3) this] show ?case .
qed

lemma those_total: "\<forall>h \<in> set xs. h \<noteq> None \<Longrightarrow> \<exists>ys. those xs = Some ys"
  by (induction xs) auto

lemma bounds_of_variables:
  "var \<in> set variables \<Longrightarrow> \<exists>lo hi. bounds_of var = Inr (lo, hi)"
proof -
  assume "var \<in> set variables"
  then have "map_of bounds var \<noteq> None"
    unfolding variables_def by (simp add: map_of_eq_None_iff)
  then show ?thesis by (auto simp: bounds_of_def)
qed

lemma sat_update:
  "sat P S p \<Longrightarrow> bounds_of var = Inr (lo, hi) \<Longrightarrow> P lo hi v \<Longrightarrow> sat P (insert var S) (p(var \<mapsto> v))"
  by (auto simp: sat_def)

lemma sat_mono: "sat P S p \<Longrightarrow> T \<subseteq> S \<Longrightarrow> sat P T p"
  by (auto simp: sat_def)

lemma init_individual_sat:
  assumes draw: "\<forall>var lo hi s. bounds_of var = Inr (lo, hi) \<longrightarrow> P lo hi (fst (np_uniform R lo hi s))"
  shows "set vars \<subseteq> set variables \<Longrightarrow> sat P S individual \<Longrightarrow>
     \<exists>individual' s'. init_individual R vars individual s = (Inr individual', s')
        \<and> sat P (S \<union> set vars) individual'"
proof (induction vars arbitrary: individual S s)
  case Nil
  then show ?case by simp
next
  case (Cons var vars)
  from Cons.prems(1) bounds_of_variables [of var] obtain lo hi where b: "bounds_of var = Inr (lo, hi)"
    by auto
  obtain v s1 where u: "np_uniform R lo hi s = (v, s1)"
    by (cases "np_uniform R lo hi s") auto
  from draw b u have "P lo hi v" by (metis fst_conv)
  from sat_update [OF Cons.prems(2) b this] have s1: "sat P (insert var S) (individual(var \<mapsto> v))" .
  from Cons.prems(1) have "set vars \<subseteq> set variables" by simp
  from Cons.IH [OF this s1, of s1] obtain individual' s' where
    run: "init_individual R vars (individual(var \<mapsto> v)) s1 = (Inr individual', s')"
    and inv: "sat P (insert var S \<union> set vars) individual'" by blast
  from b u run have "init_individual R (var # vars) individual s = (Inr individual', s')"
    by simp
  with inv show ?case by auto
qed

lemma init_population_sat:
  assumes draw: "\<forall>var lo hi s. bounds_of var = Inr (lo, hi) \<longrightarrow> P lo hi (fst (np_uniform R lo hi s))"
  shows "\<forall>p \<in> set population. sat P (set variables) p \<Longrightarrow>
     \<exists>out s'. init_population R n population s = (Inr out, s')
        \<and> length out = length population + n \<and> (\<forall>p \<in> set out. sat P (set variables) p)"
proof (induction n arbitrary: population s)
  case 0
  then show ?case by simp
next
  case (Suc n)
  have "sat P {} Map.empty" by (simp add: sat_def)
  from init_individual_sat [where P = P and R = R and vars = variables and S = "{}"
      and individual = Map.empty and s = s, OF draw subset_refl this]
  obtain individual s1 where i: "init_individual R variables Map.empty s = (Inr individual, s1)"
    and "sat P (set variables) individual" by auto
  with Suc.prems have "\<forall>p \<in> set (population @ [individual]). sat P (set variables) p" by simp
  from Suc.IH [OF this, of s1] obtain out s' where
    "init_population R n (population @ [individual]) s1 = (Inr out, s')"
    "length out = length (population @ [individual]) + n"
    "\<forall>p \<in> set out. sat P (set variables) p" by blast
  with i show ?case by simp
qed

lemma make_children_sat:
  assumes "sat P V parent1" and "sat P V parent2"
  shows "snd ` set jvars \<subseteq> V \<Longrightarrow> sat P S child1 \<Longrightarrow> sat P S child2 \<Longrightarrow>
     \<exists>c1 c2. make_children crossover_point jvars parent1 parent2 (child1, child2) = Inr (c1, c2)
        \<and> sat P (S \<union> snd ` set jvars) c1 \<and> sat P (S \<union> snd ` set jvars) c2"
proof (induction jvars arbitrary: child1 child2 S)
  case Nil
  then show ?case by simp
next
  case (Cons jv rest)
  obtain j var where jv: "jv = (j, var)" by (cases jv)
  with Cons.prems(1) have "var \<in> V" by simp
  with assms obtain lo hi v1 lo' hi' v2 where
    p1: "bounds_of var = Inr (lo, hi)" "parent1 var = Some v1" "P lo hi v1"
    and p2: "bounds_of var = Inr (lo', hi')" "parent2 var = Some v2" "P lo' hi' v2"
    unfolding sat_def by blast
  from p1(1) p2(1) have same: "lo' = lo" "hi' = hi" by simp_all
  from Cons.prems(1) have sub: "snd ` set rest \<subseteq> V" by simp
  show ?case
  proof (cases "int j < crossover_point")
    case True
    have "sat P (insert var S) (child1(var \<mapsto> v1))" "sat P (insert var S) (child2(var \<mapsto> v2))"
      using sat_update [OF Cons.prems(2) p1(1) p1(3)] sat_update [OF Cons.prems(3) p2(1) p2(3)]
      by simp_all
    from Cons.IH [OF sub this] obtain c1 c2 where
      "make_children crossover_point rest parent1 parent2
         (child1(var \<mapsto> v1), child2(var \<mapsto> v2)) = Inr (c1, c2)"
      "sat P (insert var S \<union> snd ` set rest) c1" "sat P (insert var S \<union> snd ` set rest) c2"
      by blast
    with True p1(2) p2(2) jv show ?thesis by simp
  next
    case False
    have "sat P (insert var S) (child1(var \<mapsto> v2))" "sat P (insert var S) (child2(var \<mapsto> v1))"
      using sat_update [OF Cons.prems(2) p1(1), of v2] sat_update [OF Cons.prems(3) p1(1) p1(3)]
        p2(3) same
      by simp_all
    from Cons.IH [OF sub this] obtain c1 c2 where
      "make_children crossover_point rest parent1 parent2
         (child1(var \<mapsto> v2), child2(var \<mapsto> v1)) = Inr (c1, c2)"
      "sat P (insert var S \<union> snd ` set rest) c1" "sat P (insert var S \<union> snd ` set rest) c2"
      by blast
    with False p1(2) p2(2) jv show ?thesis by simp
  qed
qed

lemma enumerate_variables: "snd ` set (zip [0..<length variables] variables) = set variables"
proof -
  have "map snd (zip [0..<length variables] variables) = variables"
    by simp
  then show ?thesis by (metis set_map)
qed

lemma crossover_sat:
  "\<forall>p \<in> set new_population. sat P (set variables) p \<Longrightarrow>
   \<forall>i \<in> set idx. i + 1 < length new_population \<Longrightarrow>
     \<exists>out s'. crossover R idx new_population s = (Inr out, s')
        \<and> (\<forall>p \<in> set out. sat P (set variables) p)"
proof (induction idx arbitrary: new_population s)
  case Nil
  then show ?case by simp
next
  case (Cons i rest)
  obtain r s1 where r: "np_random R s = (r, s1)" by (cases "np_random R s") auto
  show ?case
  proof (cases "r < 0.8")
    case False
    from Cons.prems have "\<forall>i \<in> set rest. i + 1 < length new_population" by simp
    from Cons.IH [OF Cons.prems(1) this, of s1] r False show ?thesis by simp
  next
    case True
    obtain cp s2 where cp: "np_randint R 1 (int (length variables)) s1 = (cp, s2)"
      by (cases "np_randint R 1 (int (length variables)) s1") auto
    from Cons.prems(2) have i: "i < length new_population" "i + 1 < length new_population"
      by simp_all
    let ?p1 = "new_population ! i" and ?p2 = "new_population ! (i + 1)"
    from i Cons.prems(1) have sp: "sat P (set variables) ?p1" "sat P (set variables) ?p2"
      by (simp_all del: One_nat_def)
    have e: "sat P {} Map.empty" by (simp add: sat_def)
    from make_children_sat [OF sp, of "zip [0..<length variables] variables" "{}" Map.empty Map.empty cp]
    obtain c1 c2 where c: "make_children cp (zip [0..<length variables] variables) ?p1 ?p2
          (Map.empty, Map.empty) = Inr (c1, c2)"
      and sc: "sat P (set variables) c1" "sat P (set variables) c2"
      using e by (auto simp: enumerate_variables)
    let ?new = "new_population[i := c1, i + 1 := c2]"
    have "\<forall>p \<in> set ?new. sat P (set variables) p"
    proof
      fix p assume "p \<in> set ?new"
      then have "p \<in> insert c2 (set (new_population[i := c1]))"
        using set_update_subset_insert by fast
      then have "p = c2 \<or> p = c1 \<or> p \<in> set new_population"
        using set_update_subset_insert [of new_population i c1] by auto
      with sc Cons.prems(1) show "sat P (set variables) p" by auto
    qed
    moreover from Cons.prems(2) have "\<forall>k \<in> set rest. k + 1 < length ?new" by simp
    ultimately obtain out s' where "crossover R rest ?new s2 = (Inr out, s')"
      "\<forall>p \<in> set out. sat P (set variables) p"
      using Cons.IH [of ?new s2] by blast
    with r True cp i c show ?thesis
      by (simp add: list_get_def del: One_nat_def)
  qed
qed

lemma mutate_individual_sat:
  assumes clip: "\<forall>var lo hi x. bounds_of var = Inr (lo, hi) \<longrightarrow> P lo hi (np_clip x lo hi)"
  shows "set vars \<subseteq> V \<Longrightarrow> sat P V individual \<Longrightarrow>
     \<exists>individual' s'. mutate_individual R rate vars individual s = (Inr individual', s')
        \<and> sat P V individual'"
proof (induction vars arbitrary: individual s)
  case Nil
  then show ?case by simp
next
  case (Cons var vars)
  obtain r s1 where r: "np_random R s = (r, s1)" by (cases "np_random R s") auto
  from Cons.prems(1) have sub: "set vars \<subseteq> V" and var: "var \<in> V" by simp_all
  show ?case
  proof (cases "r < rate")
    case False
    from Cons.IH [OF sub Cons.prems(2), of s1] r False show ?thesis by simp
  next
    case True
    from var Cons.prems(2) obtain lo hi v where
      b: "bounds_of var = Inr (lo, hi)" and v: "individual var = Some v"
      unfolding sat_def by blast
    obtain m s2 where m: "np_normal R 0 ((hi - lo) * 0.1) s1 = (m, s2)"
      by (cases "np_normal R 0 ((hi - lo) * 0.1) s1") auto
    from clip b have "P lo hi (np_clip (v + m) lo hi)" by blast
    from sat_update [OF Cons.prems(2) b this] var
    have "sat P V (individual(var \<mapsto> np_clip (v + m) lo hi))"
      by (simp add: insert_absorb)
    from Cons.IH [OF sub this, of s2] obtain individual' s' where
      "mutate_individual R rate vars (individual(var \<mapsto> np_clip (v + m) lo hi)) s2
         = (Inr individual', s')" "sat P V individual'" by blast
    with r True b v m show ?thesis by simp
  qed
qed

lemma mutation_sat:
  assumes clip: "\<forall>var lo hi x. bounds_of var = Inr (lo, hi) \<longrightarrow> P lo hi (np_clip x lo hi)"
  shows "\<forall>p \<in> set population. sat P (set variables) p \<Longrightarrow>
     \<exists>out s'. mutation R rate population s = (Inr out, s')
        \<and> (\<forall>p \<in> set out. sat P (set variables) p)"
proof (induction population arbitrary: s)
  case Nil
  then show ?case by simp
next
  case (Cons individual rest)
  from mutate_individual_sat [where P = P and vars = variables and V = "set variables"
      and individual = individual and R = R and rate = rate and s = s, OF clip subset_refl]
    Cons.prems
  obtain i' s1 where i: "mutate_individual R rate variables individual s = (Inr i', s1)"
    "sat P (set variables) i'" by auto
  from Cons.IH [of s1] Cons.prems obtain out s2 where
    "mutation R rate rest s1 = (Inr out, s2)" "\<forall>p \<in> set out. sat P (set variables) p"
    by auto
  with i show ?case by simp
qed

lemma crossover_indices_valid:
  "\<forall>i \<in> set (crossover_indices n). i + 1 < nat n"
  by (auto simp: crossover_indices_def)

lemma generation_stages:
  assumes "generation R config (population, b, history) s = (Inr (population', b', history'), s')"
  obtains scores selected s1 crossed s2 where
    "evaluate_population (objectives config) population ([], b) = (scores, b')"
    "selection R population scores (nat (population_size config)) [] s = (Inr selected, s1)"
    "crossover R (crossover_indices (population_size config)) selected s1 = (Inr crossed, s2)"
    "mutation R (mutation_rate config) crossed s2 = (Inr population', s')"
  using assms by (auto simp: generation_def split: prod.splits sum.splits)

lemma generation_sat:
  assumes clip: "\<forall>var lo hi x. bounds_of var = Inr (lo, hi) \<longrightarrow> P lo hi (np_clip x lo hi)"
    and gen: "generation R config (population, b, history) s = (Inr (population', b', history'), s')"
    and inv: "\<forall>p \<in> set population. sat P (set variables) p"
  shows "\<forall>p \<in> set population'. sat P (set variables) p"
proof -
  from gen obtain scores selected s1 crossed s2 where
    sel: "selection R population scores (nat (population_size config)) [] s = (Inr selected, s1)"
    and cr: "crossover R (crossover_indices (population_size config)) selected s1 = (Inr crossed, s2)"
    and mu: "mutation R (mutation_rate config) crossed s2 = (Inr population', s')"
    by (rule generation_stages)
  from selection_props [OF sel] inv have
    s_inv: "\<forall>p \<in> set selected. sat P (set variables) p"
    and s_len: "length selected = nat (population_size config)" by auto
  from crossover_indices_valid [of "population_size config"] s_len
  have "\<forall>i \<in> set (crossover_indices (population_size config)). i + 1 < length selected"
    by simp
  from crossover_sat [OF s_inv this, of R s1] cr
  have c_inv: "\<forall>p \<in> set crossed. sat P (set variables) p" by auto
  from mutation_sat [where P = P, OF clip c_inv, of R "mutation_rate config" s2] mu
  show ?thesis by auto
qed

lemma generation_total:
  assumes "choice_ok R"
    and inv: "\<forall>p \<in> set population. sat (\<lambda>lo hi v. True) (set variables) p"
    and len: "length population = nat (population_size config)"
  shows "\<exists>st' s'. generation R config (population, b, history) s = (Inr st', s')"
proof -
  obtain scores b1 where ev: "evaluate_population (objectives config) population ([], b) = (scores, b1)"
    by (cases "evaluate_population (objectives config) population ([], b)") auto
  from evaluate_population_props [OF ev] have sl: "length scores = length population" by simp
  from len have "nat (population_size config) > 0 \<longrightarrow> population \<noteq> []" by auto
  from selection_total [OF assms(1) this sl, of "[]" s] obtain selected s1 where
    sel: "selection R population scores (nat (population_size config)) [] s = (Inr selected, s1)"
    by blast
  from selection_props [OF sel] inv have
    s_inv: "\<forall>p \<in> set selected. sat (\<lambda>lo hi v. True) (set variables) p"
    and s_len: "length selected = nat (population_size config)" by auto
  from crossover_indices_valid [of "population_size config"] s_len
  have "\<forall>i \<in> set (crossover_indices (population_size config)). i + 1 < length selected"
    by simp
  from crossover_sat [OF s_inv this, of R s1] obtain crossed s2 where
    cr: "crossover R (crossover_indices (population_size config)) selected s1 = (Inr crossed, s2)"
    and c_inv: "\<forall>p \<in> set crossed. sat (\<lambda>lo hi v. True) (set variables) p" by blast
  from mutation_sat [where P = "\<lambda>lo hi v. True", OF _ c_inv, of R "mutation_rate config" s2]
  obtain mutated s3 where
    mu: "mutation R (mutation_rate config) crossed s2 = (Inr mutated, s3)" by auto
  from ev sel cr mu show ?thesis
    by (simp add: generation_def)
qed

lemma evolve_total:
  assumes "choice_ok R"
  shows "\<forall>p \<in> set population. sat (\<lambda>lo hi v. True) (set variables) p \<Longrightarrow>
     length population = nat (population_size config) \<Longrightarrow>
     \<exists>st' s'. evolve R config n (population, b, history) s = (Inr st', s')"
proof (induction n arbitrary: population b history s)
  case 0
  then show ?case by simp
next
  case (Suc n)
  from generation_total [OF assms Suc.prems, of b history s] obtain p1 b1 h1 s1 where
    gen: "generation R config (population, b, history) s = (Inr (p1, b1, h1), s1)"
    by (metis prod_cases3)
  have "\<forall>p \<in> set p1. sat (\<lambda>lo hi v. True) (set variables) p"
    by (rule generation_sat [OF _ gen Suc.prems(1)]) simp
  from Suc.IH [OF this generation_length [OF gen], of b1 h1 s1] gen show ?case by simp
qed

lemma evolve_keeps_best:
  "evolve R config n (population, b, history) s = (Inr (population', b', history'), s') \<Longrightarrow>
   b \<noteq> None \<Longrightarrow> b' \<noteq> None"
proof (induction n arbitrary: population b history s)
  case 0
  then show ?case by simp
next
  case (Suc n)
  from Suc.prems(1) obtain p1 b1 h1 s1 where
    gen: "generation R config (population, b, history) s = (Inr (p1, b1, h1), s1)"
    and rest: "evolve R config n (p1, b1, h1) s1 = (Inr (population', b', history'), s')"
    by (auto split: prod.splits sum.splits)
  from generation_props(4) [OF gen] Suc.prems(2) have "b1 \<noteq> None" by simp
  from Suc.IH [OF rest this] show ?case .
qed

lemma evolve_finds_best:
  assumes "evolve R config n (population, b, history) s = (Inr (population', b', history'), s')"
    and "0 < n" and "population \<noteq> []"
  shows "b' \<noteq> None"
proof -
  from assms(2) obtain m where n: "n = Suc m" by (cases n) auto
  with assms(1) obtain p1 b1 h1 s1 where
    gen: "generation R config (population, b, history) s = (Inr (p1, b1, h1), s1)"
    and rest: "evolve R config m (p1, b1, h1) s1 = (Inr (population', b', history'), s')"
    by (auto split: prod.splits sum.splits)
  from generation_props(3) [OF gen] assms(3) have "b1 \<noteq> None" by simp
  from evolve_keeps_best [OF rest this] show ?thesis .
qed

lemma genetic_optimization_result:
  assumes "genetic_optimization R config s = (Inr res, s')"
  obtains population s1 final_population best_individual history where
    "init_population R (nat (population_size config)) [] s = (Inr population, s1)"
    "evolve R config (nat (generations config)) (population, None, []) s1
       = (Inr (final_population, Some (fitness_score res, best_individual), history), s')"
    "those history = Some (fitness_history res)"
    "optimized_parameters res = best_individual"
  using assms
  by (auto simp: genetic_optimization_def split: prod.splits sum.splits option.splits)

lemma sorted_nth_le:
  "sorted (xs :: real list) \<Longrightarrow> i \<le> j \<Longrightarrow> j < length xs \<Longrightarrow> xs ! i \<le> xs ! j"
  by (simp add: sorted_nth_mono)

text \<open>
  C2. The fitness history that the genetic optimizer returns is non-decreasing, for
  every generator, population size and number of generations: it is sorted, entry
  \<open>i\<close> is at most entry \<open>j\<close> for \<open>i \<le> j\<close>, it has one entry per generation and its
  last entry is the returned fitness score (each entry is the best fitness seen so
  far). With a generator whose \<^verbatim>\<open>choice\<close> keeps its promise, at least one individual
  and at least one generation, the optimizer returns a result.
\<close>

theorem genetic_history_monotone:
  "(genetic_optimization R config s = (Inr res, s') \<longrightarrow>
      sorted (fitness_history res)
      \<and> (\<forall>i j. i \<le> j \<and> j < length (fitness_history res) \<longrightarrow>
            fitness_history res ! i \<le> fitness_history res ! j)
      \<and> length (fitness_history res) = nat (generations config)
      \<and> fitness_history res \<noteq> []
      \<and> last (fitness_history res) = fitness_score res)
   \<and> (choice_ok R \<and> 1 \<le> population_size config \<and> 1 \<le> generations config \<longrightarrow>
        (\<exists>r t. genetic_optimization R config s = (Inr r, t)))"
proof (intro conjI impI)
  assume run: "genetic_optimization R config s = (Inr res, s')"
  then obtain population s1 final_population best_individual history where
    ev: "evolve R config (nat (generations config)) (population, None, []) s1
       = (Inr (final_population, Some (fitness_score res, best_individual), history), s')"
    and th: "those history = Some (fitness_history res)"
    by (rule genetic_optimization_result)
  from evolve_history [OF ev] have h: "sorted history"
    "length history = nat (generations config)"
    "nat (generations config) > 0 \<longrightarrow> last history = Some (fitness_score res)"
    by simp_all
  from those_map_Some [OF th] have eq: "history = map Some (fitness_history res)" .
  with h(1) show srt: "sorted (fitness_history res)"
    by (simp add: sorted_map_Some)
  then show "\<forall>i j. i \<le> j \<and> j < length (fitness_history res) \<longrightarrow>
            fitness_history res ! i \<le> fitness_history res ! j"
    by (simp add: sorted_nth_le)
  from eq h(2) show len: "length (fitness_history res) = nat (generations config)"
    by simp
  have pos: "nat (generations config) > 0"
  proof (rule ccontr)
    assume "\<not> nat (generations config) > 0"
    with ev show False by simp
  qed
  with len show ne: "fitness_history res \<noteq> []" by auto
  from pos h(3) eq ne show "last (fitness_history res) = fitness_score res"
    by (simp add: last_map)
next
  assume a: "choice_ok R \<and> 1 \<le> population_size config \<and> 1 \<le> generations config"
  have "\<forall>var lo hi s. bounds_of var = Inr (lo, hi) \<longrightarrow> True" by simp
  from init_population_sat [where P = "\<lambda>lo hi v. True" and R = R and population = "[]"
      and n = "nat (population_size config)" and s = s]
  obtain population s1 where
    init: "init_population R (nat (population_size config)) [] s = (Inr population, s1)"
    and len: "length population = nat (population_size config)"
    and inv: "\<forall>p \<in> set population. sat (\<lambda>lo hi v. True) (set variables) p"
    by auto
  from a have chk: "choice_ok R" by simp
  from evolve_total [OF chk inv len, of "nat (generations config)" None "[]" s1]
  obtain final_population b history s2 where
    ev: "evolve R config (nat (generations config)) (population, None, []) s1
       = (Inr (final_population, b, history), s2)"
    by (metis prod_cases3)
  from a len have "0 < nat (generations config)" "population \<noteq> []" by auto
  from evolve_finds_best [OF ev this] obtain bf bi where b: "b = Some (bf, bi)" by auto
  have "\<forall>h \<in> set history. h \<noteq> None"
    by (rule evolve_history_finite [OF ev len]) (simp_all add: b)
  from those_total [OF this] obtain fh where "those history = Some fh" by blast
  with init ev b show "\<exists>r t. genetic_optimization R config s = (Inr r, t)"
    by (simp add: genetic_optimization_def)
qed

subsection \<open>A run of the genetic optimizer\<close>

lemma ex_init_individual:
  "init_individual example_rng variables Map.empty s = (Inr upper, s + 7)"
  by (simp add: variables_def bounds_def bounds_of_def example_rng_def upper_def)

lemma ex_init: "init_population example_rng (nat 2) [] 0 = (Inr [upper, upper], 14)"
  by (simp add: eval_nat_numeral ex_init_individual)

lemma ex_fitness:
  "evaluate_fitness upper cost_objectives = - (19 / 60)"
  "evaluate_fitness lowered cost_objectives = - (7 / 25)"
  by (simp_all add: cost_objectives_def evaluate_fitness_cost_only upper_def lowered_def
      dict_get_upd dict_get_empty)

lemma ex_evaluate:
  "evaluate_population cost_objectives [upper, upper] ([], None)
     = ([- (19 / 60), - (19 / 60)], Some (- (19 / 60), upper))"
  "evaluate_population cost_objectives [lowered, lowered] ([], Some (- (19 / 60), upper))
     = ([- (7 / 25), - (7 / 25)], Some (- (7 / 25), lowered))"
  by (simp_all add: ex_fitness improves_def Let_def)

lemma ex_tournament:
  "tournament example_rng [a, b] [f1, f2] s = (Inr a, Suc s)"
  by (simp add: tournament_def example_rng_def eval_nat_numeral list_get_def np_argmax_def)

lemma ex_selection:
  "selection example_rng [a, b] [f1, f2] (nat 2) [] s = (Inr [a, a], s + 2)"
  by (simp add: eval_nat_numeral ex_tournament)

lemma ex_children:
  "make_children 1 (zip [0..<length variables] variables) upper upper (Map.empty, Map.empty)
     = Inr (upper, upper)"
  "make_children 1 (zip [0..<length variables] variables) lowered lowered (Map.empty, Map.empty)
     = Inr (lowered, lowered)"
  by (simp_all add: variables_def bounds_def upt_conv_Cons upper_def lowered_def)

lemma ex_crossover:
  "crossover example_rng (crossover_indices 2) [upper, upper] s = (Inr [upper, upper], s + 2)"
  "crossover example_rng (crossover_indices 2) [lowered, lowered] s = (Inr [lowered, lowered], s + 2)"
  by (simp_all add: crossover_indices_def upt_conv_Cons example_rng_def list_get_def
      ex_children [unfolded example_rng_def])

lemma ex_mutate:
  "mutate_individual example_rng 0.1 variables upper s = (Inr lowered, s + 14)"
  "mutate_individual example_rng 0.1 variables lowered s = (Inr lowered2, s + 14)"
  by (simp_all add: variables_def bounds_def bounds_of_def example_rng_def upper_def lowered_def
      lowered2_def np_clip_def fun_upd_twist)

lemma ex_mutation:
  "mutation example_rng 0.1 [upper, upper] s = (Inr [lowered, lowered], s + 28)"
  "mutation example_rng 0.1 [lowered, lowered] s = (Inr [lowered2, lowered2], s + 28)"
  by (simp_all add: ex_mutate)

lemma example_config_fields:
  "objectives example_config = cost_objectives"
  "population_size example_config = 2"
  "generations example_config = 2"
  "mutation_rate example_config = 0.1"
  by (simp_all add: example_config_def)

lemma ex_generation:
  "generation example_rng example_config ([upper, upper], None, []) s
     = (Inr ([lowered, lowered], Some (- (19 / 60), upper), [Some (- (19 / 60))]), s + 32)"
  "generation example_rng example_config
       ([lowered, lowered], Some (- (19 / 60), upper), [Some (- (19 / 60))]) s
     = (Inr ([lowered2, lowered2], Some (- (7 / 25), lowered),
             [Some (- (19 / 60)), Some (- (7 / 25))]), s + 32)"
  unfolding generation_def example_config_fields prod.case ex_evaluate ex_selection sum.case
    ex_crossover ex_mutation
  by simp_all

lemma ex_evolve:
  "evolve example_rng example_config (nat 2) ([upper, upper], None, []) s
     = (Inr ([lowered2, lowered2], Some (- (7 / 25), lowered),
             [Some (- (19 / 60)), Some (- (7 / 25))]), s + 64)"
  by (simp add: eval_nat_numeral ex_generation)

lemma ex_genetic_optimization:
  "genetic_optimization example_rng example_config 0
     = (Inr \<lparr>optimized_parameters = lowered,
              fitness_score = - (7 / 25),
              performance_metrics = evaluate_system_performance lowered,
              optimization_method = ''genetic_algorithm'',
              fitness_history = [- (19 / 60), - (7 / 25)],
              convergence = \<lparr>converged = False, stability = 0, final_improvement = None\<rparr>,
              res_generations = 2,
              res_population_size = 2\<rparr>, 78)"
  unfolding genetic_optimization_def example_config_fields ex_init prod.case sum.case ex_evolve
  by (simp add: calculate_convergence_def)

lemma example_rng_ok: "choice_ok example_rng" "uniform_ok example_rng"
  by (simp_all add: choice_ok_def uniform_ok_def example_rng_def)

theorem genetic_history_monotone_witness:
  "fst (genetic_optimization example_rng example_config 0)
     = Inr \<lparr>optimized_parameters = lowered,
              fitness_score = - (7 / 25),
              performance_metrics = evaluate_system_performance lowered,
              optimization_method = ''genetic_algorithm'',
              fitness_history = [- (19 / 60), - (7 / 25)],
              convergence = \<lparr>converged = False, stability = 0, final_improvement = None\<rparr>,
              res_generations = 2,
              res_population_size = 2\<rparr>
   \<and> sorted [- (19 / 60), - (7 / 25) :: real]
   \<and> choice_ok example_rng
   \<and> 1 \<le> population_size example_config
   \<and> 1 \<le> generations example_config"
  using genetic_history_monotone [of example_rng example_config 0
      "\<lparr>optimized_parameters = lowered,
              fitness_score = - (7 / 25),
              performance_metrics = evaluate_system_performance lowered,
              optimization_method = ''genetic_algorithm'',
              fitness_history = [- (19 / 60), - (7 / 25)],
              convergence = \<lparr>converged = False, stability = 0, final_improvement = None\<rparr>,
              res_generations = 2,
              res_population_size = 2\<rparr>" 78]
    ex_genetic_optimization example_rng_ok(1)
  by (simp add: example_config_def)

subsection \<open>The bounds of the parameter values\<close>

lemma bounds_ordered: "bounds_of var = Inr (lo, hi) \<Longrightarrow> lo \<le> hi"
  by (auto simp: bounds_of_def bounds_def split: if_splits)

lemma bounds_entries_ordered: "\<forall>(var, lo, hi) \<in> set bounds. lo \<le> hi"
  by (simp add: bounds_def)

lemma np_clip_range: "lo \<le> hi \<Longrightarrow> lo \<le> np_clip v lo hi \<and> np_clip v lo hi \<le> hi"
  by (auto simp: np_clip_def)

lemma bounds_of_iff: "bounds_of var = Inr (lo, hi) \<longleftrightarrow> (var, lo, hi) \<in> set bounds"
proof -
  have "distinct (map fst bounds)" by (simp add: bounds_def)
  then have "map_of bounds var = Some (lo, hi) \<longleftrightarrow> (var, lo, hi) \<in> set bounds"
    by (rule map_of_eq_Some_iff)
  then show ?thesis
    by (cases "map_of bounds var") (auto simp: bounds_of_def)
qed

lemma in_bounds_sat: "in_bounds p \<longleftrightarrow> sat (\<lambda>lo hi v. lo \<le> v \<and> v \<le> hi) (set variables) p"
proof
  assume a: "in_bounds p"
  show "sat (\<lambda>lo hi v. lo \<le> v \<and> v \<le> hi) (set variables) p"
    unfolding sat_def
  proof
    fix var assume "var \<in> set variables"
    then obtain lo hi where m: "(var, lo, hi) \<in> set bounds"
      by (auto simp: variables_def)
    with a have "case p var of Some v \<Rightarrow> lo \<le> v \<and> v \<le> hi | None \<Rightarrow> False"
      by (auto simp: in_bounds_def list_all_iff)
    with m show "\<exists>lo hi v. bounds_of var = Inr (lo, hi) \<and> p var = Some v \<and> lo \<le> v \<and> v \<le> hi"
      by (auto simp: bounds_of_iff split: option.splits)
  qed
next
  assume a: "sat (\<lambda>lo hi v. lo \<le> v \<and> v \<le> hi) (set variables) p"
  have "case p var of Some v \<Rightarrow> lo \<le> v \<and> v \<le> hi | None \<Rightarrow> False"
    if m: "(var, lo, hi) \<in> set bounds" for var lo hi
  proof -
    from m have "var \<in> set variables" by (force simp: variables_def)
    with a obtain lo' hi' v where "bounds_of var = Inr (lo', hi')" "p var = Some v"
      "lo' \<le> v" "v \<le> hi'" unfolding sat_def by blast
    moreover from m have "bounds_of var = Inr (lo, hi)" by (simp add: bounds_of_iff)
    ultimately show ?thesis by simp
  qed
  then show "in_bounds p"
    by (auto simp: in_bounds_def list_all_iff)
qed

lemma clip_condition:
  "\<forall>var lo hi x. bounds_of var = Inr (lo, hi) \<longrightarrow>
     (\<lambda>lo hi v. lo \<le> v \<and> v \<le> hi) lo hi (np_clip x lo hi)"
  using bounds_ordered np_clip_range by blast

lemma draw_condition:
  "uniform_ok R \<Longrightarrow> \<forall>var lo hi s. bounds_of var = Inr (lo, hi) \<longrightarrow>
     (\<lambda>lo hi v. lo \<le> v \<and> v \<le> hi) lo hi (fst (np_uniform R lo hi s))"
  using bounds_ordered unfolding uniform_ok_def by blast

lemma list_all_in_bounds:
  "list_all in_bounds ps \<longleftrightarrow> (\<forall>p \<in> set ps. sat (\<lambda>lo hi v. lo \<le> v \<and> v \<le> hi) (set variables) p)"
  by (simp add: list_all_iff in_bounds_sat)

lemma crossover_sat_partial:
  "crossover R idx new_population s = (Inr out, s') \<Longrightarrow>
   \<forall>p \<in> set new_population. sat P (set variables) p \<Longrightarrow>
     \<forall>p \<in> set out. sat P (set variables) p"
proof (induction idx arbitrary: new_population s)
  case Nil
  then show ?case by simp
next
  case (Cons i rest)
  obtain r s1 where r: "np_random R s = (r, s1)" by (cases "np_random R s") auto
  show ?case
  proof (cases "r < 0.8")
    case False
    with Cons.prems(1) r have "crossover R rest new_population s1 = (Inr out, s')" by simp
    from Cons.IH [OF this Cons.prems(2)] show ?thesis .
  next
    case True
    obtain cp s2 where cp: "np_randint R 1 (int (length variables)) s1 = (cp, s2)"
      by (cases "np_randint R 1 (int (length variables)) s1") auto
    from Cons.prems(1) r True cp obtain c1 c2 where
      i: "i < length new_population" "i + 1 < length new_population"
      and c: "make_children cp (zip [0..<length variables] variables) (new_population ! i)
               (new_population ! (i + 1)) (Map.empty, Map.empty) = Inr (c1, c2)"
      and rest: "crossover R rest (new_population[i := c1, i + 1 := c2]) s2 = (Inr out, s')"
      by (auto simp: list_get_def split: if_splits sum.splits simp del: One_nat_def)
    let ?p1 = "new_population ! i" and ?p2 = "new_population ! (i + 1)"
    from i Cons.prems(2) have sp: "sat P (set variables) ?p1" "sat P (set variables) ?p2"
      by (simp_all del: One_nat_def)
    have e: "sat P {} Map.empty" by (simp add: sat_def)
    from make_children_sat [OF sp, of "zip [0..<length variables] variables" "{}" Map.empty Map.empty cp]
      c e
    have sc: "sat P (set variables) c1" "sat P (set variables) c2"
      by (auto simp: enumerate_variables)
    let ?new = "new_population[i := c1, i + 1 := c2]"
    have "\<forall>p \<in> set ?new. sat P (set variables) p"
    proof
      fix p assume "p \<in> set ?new"
      then have "p \<in> insert c2 (set (new_population[i := c1]))"
        using set_update_subset_insert by fast
      then have "p = c2 \<or> p = c1 \<or> p \<in> set new_population"
        using set_update_subset_insert [of new_population i c1] by auto
      with sc Cons.prems(2) show "sat P (set variables) p" by auto
    qed
    from Cons.IH [OF rest this] show ?thesis .
  qed
qed

lemma evolve_sat:
  assumes clip: "\<forall>var lo hi x. bounds_of var = Inr (lo, hi) \<longrightarrow> P lo hi (np_clip x lo hi)"
  shows "evolve R config n (population, b, history) s = (Inr (population', b', history'), s') \<Longrightarrow>
     \<forall>p \<in> set population. sat P (set variables) p \<Longrightarrow>
     \<forall>f p. b = Some (f, p) \<longrightarrow> sat P (set variables) p \<Longrightarrow>
       (\<forall>p \<in> set population'. sat P (set variables) p)
       \<and> (\<forall>f p. b' = Some (f, p) \<longrightarrow> sat P (set variables) p)"
proof (induction n arbitrary: population b history s)
  case 0
  then show ?case by simp
next
  case (Suc n)
  from Suc.prems(1) obtain p1 b1 h1 s1 where
    gen: "generation R config (population, b, history) s = (Inr (p1, b1, h1), s1)"
    and rest: "evolve R config n (p1, b1, h1) s1 = (Inr (population', b', history'), s')"
    by (auto split: prod.splits sum.splits)
  have 1: "\<forall>p \<in> set p1. sat P (set variables) p"
    by (rule generation_sat [OF clip gen Suc.prems(2)])
  have 2: "\<forall>f p. b1 = Some (f, p) \<longrightarrow> sat P (set variables) p"
    using generation_props(5) [OF gen] Suc.prems(2,3) by blast
  from Suc.IH [OF rest 1 2] show ?case .
qed

subsection \<open>Vectors\<close>

lemma apply_bounds_in_bounds:
  "length x = length bounds \<Longrightarrow> vec_in_bounds 0 (apply_bounds x)"
proof -
  have "length xs = length bs \<Longrightarrow> \<forall>(var, lo, hi) \<in> set bs. lo \<le> hi \<Longrightarrow>
      list_all2 (\<lambda>v (var, lo, hi). lo - 0 \<le> v \<and> v \<le> hi + 0)
        (map2 (\<lambda>v (lower, upper). np_clip v lower upper) xs (map snd bs)) bs"
    for xs :: "real list" and bs :: "(string \<times> real \<times> real) list"
  proof (induction xs bs rule: list_induct2)
    case Nil
    then show ?case by simp
  next
    case (Cons v xs b bs)
    then show ?case
      by (cases b) (auto simp: np_clip_def)
  qed
  from this [of x bounds] bounds_entries_ordered
  show "length x = length bounds \<Longrightarrow> vec_in_bounds 0 (apply_bounds x)"
    by (simp add: vec_in_bounds_def apply_bounds_def)
qed

lemma gradient_update_in_bounds:
  "length x = length bounds \<Longrightarrow> vec_in_bounds 0 (gradient_update obj x)"
  unfolding gradient_update_def Let_def
  by (rule apply_bounds_in_bounds) (simp add: numerical_gradient_def)

lemma x0_in_bounds: "vec_in_bounds 0 x0"
  by (simp add: vec_in_bounds_def x0_def bounds_def)

lemma gradient_iterate_in_bounds: "vec_in_bounds 0 (gradient_iterate obj k)"
proof (induction k)
  case 0
  show ?case by (simp add: x0_in_bounds)
next
  case (Suc k)
  then have "length (gradient_iterate obj k) = length bounds"
    by (simp add: vec_in_bounds_def)
  then show ?case by (simp add: gradient_update_in_bounds)
qed

lemma probes_near_bounds:
  assumes "vec_in_bounds 0 x" and "0 \<le> h"
  shows "vec_in_bounds h (x_plus x h i)" and "vec_in_bounds h (x_minus x h i)"
proof -
  from assms(1) have len: "length x = length bounds"
    and all: "\<And>k. k < length bounds \<Longrightarrow>
        (case bounds ! k of (var, lo, hi) \<Rightarrow> lo \<le> x ! k \<and> x ! k \<le> hi)"
    by (auto simp: vec_in_bounds_def list_all2_conv_all_nth split: prod.splits)
  have "case bounds ! k of (var, lo, hi) \<Rightarrow> lo - h \<le> (x[i := x ! i + h]) ! k \<and> (x[i := x ! i + h]) ! k \<le> hi + h"
    if "k < length bounds" for k
    using all [OF that] that len assms(2)
    by (cases "k = i") (auto split: prod.splits)
  then show "vec_in_bounds h (x_plus x h i)"
    using len by (auto simp: vec_in_bounds_def x_plus_def list_all2_conv_all_nth split: prod.splits)
  have "case bounds ! k of (var, lo, hi) \<Rightarrow> lo - h \<le> (x[i := x ! i - h]) ! k \<and> (x[i := x ! i - h]) ! k \<le> hi + h"
    if "k < length bounds" for k
    using all [OF that] that len assms(2)
    by (cases "k = i") (auto split: prod.splits)
  then show "vec_in_bounds h (x_minus x h i)"
    using len by (auto simp: vec_in_bounds_def x_minus_def list_all2_conv_all_nth split: prod.splits)
qed

lemma array_to_params_in_bounds:
  assumes "vec_in_bounds 0 x"
  shows "in_bounds (array_to_params x)"
proof -
  from assms have "length x = 7" by (simp add: vec_in_bounds_def bounds_def)
  then obtain a b c d e f g where x: "x = [a, b, c, d, e, f, g]"
    by (auto simp: length_Suc_conv eval_nat_numeral)
  from assms show ?thesis
    unfolding x by (simp add: vec_in_bounds_def in_bounds_def array_to_params_def bounds_def)
qed

lemma grid_params_in_bounds:
  "3 \<le> pr \<Longrightarrow> pr \<le> 25 \<Longrightarrow> 800 \<le> tt \<Longrightarrow> tt \<le> 1600 \<Longrightarrow> in_bounds (grid_params pr tt)"
  by (simp add: in_bounds_def grid_params_def bounds_def)

lemma sample_solutions_in_bounds:
  assumes "sol \<in> set (sample_solutions cons)"
  shows "in_bounds (parameters sol)"
proof -
  from assms obtain pr tt where pr: "pr \<in> set pressure_ratios" and tt: "tt \<in> set turbine_temps"
    and sol: "sol \<in> set (sample cons pr tt)"
    by (auto simp: mem_sample_solutions)
  from sol have "parameters sol = grid_params pr tt"
    by (auto simp: sample_def Let_def make_solution_def split: if_splits)
  moreover from pr have "3 \<le> pr \<and> pr \<le> 25"
    using np_linspace_bounds [of pr 3 25 n_samples] by (simp add: pressure_ratios_def)
  moreover from tt have "800 \<le> tt \<and> tt \<le> 1600"
    using np_linspace_bounds [of tt 800 1600 n_samples] by (simp add: turbine_temps_def)
  ultimately show ?thesis by (simp add: grid_params_in_bounds)
qed

lemma mutation_sat_partial:
  assumes "\<forall>var lo hi x. bounds_of var = Inr (lo, hi) \<longrightarrow> P lo hi (np_clip x lo hi)"
    and "mutation R rate population s = (Inr out, s')"
    and "\<forall>p \<in> set population. sat P (set variables) p"
  shows "\<forall>p \<in> set out. sat P (set variables) p"
  using mutation_sat [where P = P, OF assms(1) assms(3), of R rate s] assms(2) by auto

lemma init_population_in_bounds:
  assumes "uniform_ok R" and "init_population R n [] s = (Inr population, s')"
  shows "list_all in_bounds population"
  using init_population_sat [where P = "\<lambda>lo hi v. lo \<le> v \<and> v \<le> hi" and R = R
      and population = "[]" and n = n and s = s, OF draw_condition [OF assms(1)]] assms(2)
  by (auto simp: list_all_in_bounds)

lemma genetic_optimization_in_bounds:
  assumes "uniform_ok R" and "genetic_optimization R config s = (Inr res, s')"
  shows "in_bounds (optimized_parameters res)"
proof -
  from assms(2) obtain population s1 final_population best_individual history where
    init: "init_population R (nat (population_size config)) [] s = (Inr population, s1)"
    and ev: "evolve R config (nat (generations config)) (population, None, []) s1
       = (Inr (final_population, Some (fitness_score res, best_individual), history), s')"
    and best: "optimized_parameters res = best_individual"
    by (rule genetic_optimization_result)
  from init_population_in_bounds [OF assms(1) init]
  have "\<forall>p \<in> set population. sat (\<lambda>lo hi v. lo \<le> v \<and> v \<le> hi) (set variables) p"
    by (simp add: list_all_in_bounds)
  from evolve_sat [where P = "\<lambda>lo hi v. lo \<le> v \<and> v \<le> hi", OF clip_condition ev this]
  have "sat (\<lambda>lo hi v. lo \<le> v \<and> v \<le> hi) (set variables) best_individual"
    by simp
  with best show ?thesis by (simp add: in_bounds_sat)
qed

lemma gradient_optimization_in_bounds:
  "in_bounds (optimized_parameters (gradient_optimization config))"
proof -
  obtain x history iteration where run: "gradient_run (objectives config) = (x, history, iteration)"
    by (cases "gradient_run (objectives config)") auto
  have pos: "0 < max_iterations" by (simp add: max_iterations_def)
  have start: "x0 = gradient_iterate (objectives config) 0" by simp
  have len: "length ([] :: real list) = 0" by simp
  from gradient_loop_range [OF run [unfolded gradient_run_def] pos len start]
  have "x = gradient_iterate (objectives config) (length history)" by blast
  then have "in_bounds (array_to_params x)"
    by (simp add: array_to_params_in_bounds gradient_iterate_in_bounds)
  with run show ?thesis
    by (simp add: gradient_optimization_def Let_def)
qed

lemma pareto_solutions_in_bounds:
  "sol \<in> set (all_solutions (pareto_optimization config)) \<Longrightarrow> in_bounds (parameters sol)"
  by (simp add: pareto_optimization_def Let_def sample_solutions_in_bounds)

text \<open>
  C3, as the code has it. With a generator whose uniform samples lie between their
  limits, every parameter value lies within the inclusive range of its variable: in the
  initial population, after selection, after crossover and after mutation, in every
  population and best individual the evolution reaches, in the returned parameters of
  the genetic and of the gradient optimizer, in every gradient iterate, and in every
  grid sample and frontier member of the Pareto optimizer. The vectors rebuilt for the
  finite-difference probes lie within the ranges widened by the step \<open>h = 1e-5\<close> on
  both sides: the probed entry is the iterate's entry plus or minus \<open>h\<close> and is not
  clipped.
\<close>

theorem bounds_invariant:
  assumes "uniform_ok R"
  shows "(init_population R n [] s = (Inr population, s1) \<longrightarrow> list_all in_bounds population)
   \<and> (list_all in_bounds pop \<and> selection R pop scores m [] t = (Inr selected, t1) \<longrightarrow>
        list_all in_bounds selected)
   \<and> (list_all in_bounds sel \<and> crossover R idx sel u = (Inr crossed, u1) \<longrightarrow>
        list_all in_bounds crossed)
   \<and> (list_all in_bounds crs \<and> mutation R rate crs v = (Inr mutated, v1) \<longrightarrow>
        list_all in_bounds mutated)
   \<and> (list_all in_bounds start \<and>
        evolve R config g (start, None, []) w = (Inr (final_population, b, history), w1) \<longrightarrow>
        list_all in_bounds final_population \<and> (\<forall>f p. b = Some (f, p) \<longrightarrow> in_bounds p))
   \<and> (genetic_optimization R config z = (Inr res, z1) \<longrightarrow> in_bounds (optimized_parameters res))
   \<and> vec_in_bounds 0 (gradient_iterate obj k)
   \<and> in_bounds (array_to_params (gradient_iterate obj k))
   \<and> vec_in_bounds h_default (x_plus (gradient_iterate obj k) h_default i)
   \<and> vec_in_bounds h_default (x_minus (gradient_iterate obj k) h_default i)
   \<and> in_bounds (optimized_parameters (gradient_optimization config))
   \<and> (\<forall>sol \<in> set (all_solutions (pareto_optimization config)). in_bounds (parameters sol))
   \<and> (\<forall>sol \<in> set (pareto_frontier (pareto_optimization config)). in_bounds (parameters sol))"
proof -
  let ?P = "\<lambda>lo hi v :: real. lo \<le> v \<and> v \<le> hi"
  have 1: "init_population R n [] s = (Inr population, s1) \<longrightarrow> list_all in_bounds population"
    using init_population_in_bounds [OF assms] by blast
  have 2: "list_all in_bounds pop \<and> selection R pop scores m [] t = (Inr selected, t1) \<longrightarrow>
        list_all in_bounds selected"
    using selection_props [of R pop scores m "[]" t selected t1]
    by (auto simp: list_all_iff)
  have 3: "list_all in_bounds sel \<and> crossover R idx sel u = (Inr crossed, u1) \<longrightarrow>
        list_all in_bounds crossed"
    using crossover_sat_partial [of R idx sel u crossed u1 ?P]
    by (simp add: list_all_in_bounds)
  have 4: "list_all in_bounds crs \<and> mutation R rate crs v = (Inr mutated, v1) \<longrightarrow>
        list_all in_bounds mutated"
    using mutation_sat_partial [where P = ?P, OF clip_condition, of R rate crs v mutated v1]
    by (simp add: list_all_in_bounds)
  have 5: "list_all in_bounds start \<and>
        evolve R config g (start, None, []) w = (Inr (final_population, b, history), w1) \<longrightarrow>
        list_all in_bounds final_population \<and> (\<forall>f p. b = Some (f, p) \<longrightarrow> in_bounds p)"
    using evolve_sat [where P = ?P, OF clip_condition, of R config g start None "[]" w
        final_population b history w1]
    by (simp add: list_all_in_bounds in_bounds_sat)
  have 6: "genetic_optimization R config z = (Inr res, z1) \<longrightarrow> in_bounds (optimized_parameters res)"
    using genetic_optimization_in_bounds [OF assms] by blast
  have 7: "vec_in_bounds 0 (gradient_iterate obj k)"
    by (rule gradient_iterate_in_bounds)
  have 8: "in_bounds (array_to_params (gradient_iterate obj k))"
    by (rule array_to_params_in_bounds [OF 7])
  have h: "0 \<le> h_default" by (simp add: h_default_def)
  have 9: "vec_in_bounds h_default (x_plus (gradient_iterate obj k) h_default i)"
    and 10: "vec_in_bounds h_default (x_minus (gradient_iterate obj k) h_default i)"
    by (rule probes_near_bounds [OF 7 h])+
  have 11: "in_bounds (optimized_parameters (gradient_optimization config))"
    by (rule gradient_optimization_in_bounds)
  have 12: "\<forall>sol \<in> set (all_solutions (pareto_optimization config)). in_bounds (parameters sol)"
    using pareto_solutions_in_bounds by blast
  have 13: "\<forall>sol \<in> set (pareto_frontier (pareto_optimization config)). in_bounds (parameters sol)"
    using 12 by (simp add: mem_pareto_frontier)
  show ?thesis
    by (intro conjI 1 2 3 4 5 6 7 8 9 10 11 12 13)
qed

lemma steep_first_step:
  "gradient_update steep_objectives x0 = [3, 1400, 0.85, 0.88, 20, 473, 2]"
  unfolding steep_objectives_def x0_def gradient_update_cost_only
  by (simp add: np_clip_def dict_get_upd)

lemma steep_first_step_norm:
  "np_norm (vec_sub (gradient_update steep_objectives x0) x0) = 9"
  unfolding steep_first_step
  by (simp add: x0_def vec_sub_def np_norm_first)

lemma steep_second_iterate:
  "gradient_iterate steep_objectives 1 = [3, 1400, 0.85, 0.88, 20, 473, 2]"
  using steep_first_step by simp

text \<open>
  The claim as the specification words it fails for the probes. With the specific cost
  minimized with weight \<open>6000\<close>, the first step moves the pressure ratio from \<open>12\<close> to
  its lower limit \<open>3\<close> and does not end the loop; the second iteration then probes the
  fitness at the pressure ratio \<open>3 - 1e-5\<close>, below the limit.
\<close>

theorem probe_out_of_bounds_counterexample:
  "\<not> np_norm (vec_sub (gradient_update steep_objectives x0) x0) < tolerance
   \<and> gradient_iterate steep_objectives 1 = [3, 1400, 0.85, 0.88, 20, 473, 2]
   \<and> x_minus (gradient_iterate steep_objectives 1) h_default 0
        = [3 - 1 / 100000, 1400, 0.85, 0.88, 20, 473, 2]
   \<and> array_to_params (x_minus (gradient_iterate steep_objectives 1) h_default 0) ''pressure_ratio''
        = Some (3 - 1 / 100000)
   \<and> map_of bounds ''pressure_ratio'' = Some (3, 25)
   \<and> \<not> in_bounds (array_to_params (x_minus (gradient_iterate steep_objectives 1) h_default 0))"
  unfolding steep_second_iterate steep_first_step_norm
  by (simp add: tolerance_def x_minus_def h_default_def array_to_params_def in_bounds_def bounds_def)

theorem bounds_invariant_witness:
  "uniform_ok example_rng
   \<and> init_population example_rng (nat 2) [] 0 = (Inr [upper, upper], 14)
   \<and> list_all in_bounds [upper, upper]
   \<and> mutation example_rng 0.1 [upper, upper] 0 = (Inr [lowered, lowered], 28)
   \<and> list_all in_bounds [lowered, lowered]
   \<and> evolve example_rng example_config (nat 2) ([upper, upper], None, []) 14
       = (Inr ([lowered2, lowered2], Some (- (7 / 25), lowered),
               [Some (- (19 / 60)), Some (- (7 / 25))]), 78)
   \<and> list_all in_bounds [lowered2, lowered2]
   \<and> in_bounds lowered
   \<and> in_bounds (array_to_params (gradient_iterate steep_objectives 1))
   \<and> vec_in_bounds h_default (x_minus (gradient_iterate steep_objectives 1) h_default 0)"
proof -
  have ev: "evolve example_rng example_config (nat 2) ([upper, upper], None, []) 14
       = (Inr ([lowered2, lowered2], Some (- (7 / 25), lowered),
               [Some (- (19 / 60)), Some (- (7 / 25))]), 78)"
    using ex_evolve [of 14] by simp
  have mu: "mutation example_rng 0.1 [upper, upper] 0 = (Inr [lowered, lowered], 28)"
    using ex_mutation(1) [of 0] by simp
  note inst = bounds_invariant [OF example_rng_ok(2),
      where n = "nat 2" and s = 0 and population = "[upper, upper]" and ?s1.0 = 14
        and crs = "[upper, upper]" and rate = "0.1" and v = 0 and mutated = "[lowered, lowered]"
        and ?v1.0 = 28
        and start = "[upper, upper]" and config = example_config and g = "nat 2" and w = 14
        and final_population = "[lowered2, lowered2]" and b = "Some (- (7 / 25), lowered)"
        and history = "[Some (- (19 / 60)), Some (- (7 / 25))]" and ?w1.0 = 78
        and obj = steep_objectives and k = 1 and i = 0]
  from inst ex_init have a: "list_all in_bounds [upper, upper]" by blast
  from inst a mu have b: "list_all in_bounds [lowered, lowered]" by blast
  from inst a ev have c: "list_all in_bounds [lowered2, lowered2]" "in_bounds lowered" by blast+
  from inst have d: "in_bounds (array_to_params (gradient_iterate steep_objectives 1))"
    "vec_in_bounds h_default (x_minus (gradient_iterate steep_objectives 1) h_default 0)"
    by blast+
  from example_rng_ok(2) ex_init a mu b ev c d show ?thesis by blast
qed

subsection \<open>The facade\<close>

text \<open>
  C8. \<^verbatim>\<open>optimize\<close> dispatches on the method selector: the genetic, the gradient or the
  Pareto optimizer for the three members, and for every other value the
  \<^verbatim>\<open>ValueError\<close> for an unknown method, at once: nothing is computed and the state of
  the random number generator is the one it was called with.
\<close>

theorem optimize_dispatch:
  "(cfg_method config = Member GENETIC \<longrightarrow>
      fst (optimize R config s) = map_sum id Genetic (fst (genetic_optimization R config s))
      \<and> snd (optimize R config s) = snd (genetic_optimization R config s))
   \<and> (cfg_method config = Member GRADIENT \<longrightarrow>
      optimize R config s = (Inr (Gradient (gradient_optimization config)), s))
   \<and> (cfg_method config = Member PARETO \<longrightarrow>
      optimize R config s = (Inr (Pareto (pareto_optimization config)), s))
   \<and> (cfg_method config \<noteq> Member GENETIC \<and> cfg_method config \<noteq> Member GRADIENT
        \<and> cfg_method config \<noteq> Member PARETO \<longrightarrow>
      optimize R config s
        = (Inl (ValueError (''Unknown optimization method: '' @ method_text (cfg_method config))), s))
   \<and> (\<forall>v. cfg_method config = Foreign v \<longrightarrow>
      optimize R config s = (Inl (ValueError (''Unknown optimization method: '' @ v)), s))"
  by (auto simp: optimize_def split: prod.splits sum.splits)

theorem optimize_dispatch_witness:
  "cfg_method (example_config\<lparr>cfg_method := Foreign ''annealing''\<rparr>) = Foreign ''annealing''
   \<and> optimize example_rng (example_config\<lparr>cfg_method := Foreign ''annealing''\<rparr>) 5
       = (Inl (ValueError ''Unknown optimization method: annealing''), 5)
   \<and> cfg_method (example_config\<lparr>cfg_method := Member GRADIENT\<rparr>) = Member GRADIENT
   \<and> optimize example_rng (example_config\<lparr>cfg_method := Member GRADIENT\<rparr>) 5
       = (Inr (Gradient (gradient_optimization (example_config\<lparr>cfg_method := Member GRADIENT\<rparr>))), 5)
   \<and> cfg_method (example_config\<lparr>cfg_method := Member PARETO\<rparr>) = Member PARETO
   \<and> optimize example_rng (example_config\<lparr>cfg_method := Member PARETO\<rparr>) 5
       = (Inr (Pareto (pareto_optimization (example_config\<lparr>cfg_method := Member PARETO\<rparr>))), 5)
   \<and> cfg_method example_config = Member GENETIC
   \<and> fst (optimize example_rng example_config 0)
       = Inr (Genetic \<lparr>optimized_parameters = lowered,
              fitness_score = - (7 / 25),
              performance_metrics = evaluate_system_performance lowered,
              optimization_method = ''genetic_algorithm'',
              fitness_history = [- (19 / 60), - (7 / 25)],
              convergence = \<lparr>converged = False, stability = 0, final_improvement = None\<rparr>,
              res_generations = 2,
              res_population_size = 2\<rparr>)
   \<and> snd (optimize example_rng example_config 0) = 78"
  using optimize_dispatch [of "example_config\<lparr>cfg_method := Foreign ''annealing''\<rparr>" example_rng 5]
    optimize_dispatch [of "example_config\<lparr>cfg_method := Member GRADIENT\<rparr>" example_rng 5]
    optimize_dispatch [of "example_config\<lparr>cfg_method := Member PARETO\<rparr>" example_rng 5]
    optimize_dispatch [of example_config example_rng 0]
    ex_genetic_optimization
  by (simp add: example_config_def)

end
